theory Spec2Isabelle
  imports
    Complex_Main
    "HOL-Library.Sublist"
    "HOL-Library.AList"
    "HOL-Library.Multiset"
    "HOL-Library.Char_ord"
    "HOL-Library.List_Lexorder"
begin

section \<open>Python values shared by both programs\<close>

text \<open>
  Exceptions are values.  Only subclasses of Python's \<^verbatim>\<open>Exception\<close> are modelled, since
  these are what the \<^verbatim>\<open>except Exception\<close> handlers of both files catch.  A call that may
  raise returns \<open>exn + 'a\<close>, with \<open>Inl\<close> for the raised exception.
\<close>

datatype exn =
    KeyError string
  | ValueError string
  | TypeError string
  | OSError string
  | Exception string

fun exn_str :: "exn \<Rightarrow> string" where
  "exn_str (KeyError k) = [CHR 0x27] @ k @ [CHR 0x27]"
| "exn_str (ValueError m) = m"
| "exn_str (TypeError m) = m"
| "exn_str (OSError m) = m"
| "exn_str (Exception m) = m"

text \<open>
  A Python \<^verbatim>\<open>dict\<close> keeps insertion order, which the viewer relies on when it lists the
  tokens.  It is an association list with distinct keys: \<^const>\<open>AList.update\<close> overwrites an
  existing key in place and appends a new key at the end, \<^const>\<open>AList.map_entry\<close>
  mutates the value stored under a key, and \<^const>\<open>map_of\<close> is the lookup.
\<close>

type_synonym ('k, 'v) dict = "('k \<times> 'v) list"

definition dict_keys :: "('k, 'v) dict \<Rightarrow> 'k list" where
  "dict_keys d = map fst d"

definition dict_getitem :: "('k \<Rightarrow> string) \<Rightarrow> ('k, 'v) dict \<Rightarrow> 'k \<Rightarrow> exn + 'v" where
  "dict_getitem show_key d k = (case map_of d k of None \<Rightarrow> Inl (KeyError (show_key k)) | Some v \<Rightarrow> Inr v)"

section \<open>dashboard.py: regular expressions\<close>

text \<open>
  \<^verbatim>\<open>re.search\<close> is modelled by a backtracking matcher that returns every way a pattern
  can match at a position, in the order Python's engine tries them (greedy repetition
  first, left alternative first).  The head of that list is the match Python reports.
  Characters are code points below 256.  \<^verbatim>\<open>.\<close> excludes the line feed only; \<^verbatim>\<open>\s\<close> is
  Python's whitespace test for \<^verbatim>\<open>str\<close> patterns restricted to that range.
\<close>

datatype cclass = Lit char | AnyChar | Digit | Space | DigitOrDot

definition is_digit :: "char \<Rightarrow> bool" where
  "is_digit c = (c \<in> set ''0123456789'')"

definition is_space :: "char \<Rightarrow> bool" where
  "is_space c = (c \<in> set [CHR 0x09, CHR 0x0A, CHR 0x0B, CHR 0x0C, CHR 0x0D,
                            CHR 0x1C, CHR 0x1D, CHR 0x1E, CHR 0x1F, CHR 0x20, CHR 0x85, CHR 0xA0])"

fun cls_match :: "cclass \<Rightarrow> char \<Rightarrow> bool" where
  "cls_match (Lit c) x = (x = c)"
| "cls_match AnyChar x = (x \<noteq> CHR 0x0A)"
| "cls_match Digit x = is_digit x"
| "cls_match Space x = is_space x"
| "cls_match DigitOrDot x = (is_digit x \<or> x = CHR ''.'')"

datatype regex =
    Atom cclass
  | Lits string
  | Seq regex regex
  | Alt regex regex
  | Star cclass
  | Plus cclass
  | Rep nat cclass
  | Group nat regex

type_synonym groups = "nat \<rightharpoonup> string"

text \<open>The strings left over after a greedy \<^verbatim>\<open>c*\<close>, longest match first.\<close>

fun star_greedy :: "cclass \<Rightarrow> string \<Rightarrow> string list" where
  "star_greedy c [] = [[]]"
| "star_greedy c (x # xs) = (if cls_match c x then star_greedy c xs @ [x # xs] else [x # xs])"

text \<open>
  A matcher state is the text still to be read and the groups captured so far.
\<close>

fun rmatch :: "regex \<Rightarrow> string \<times> groups \<Rightarrow> (string \<times> groups) list" where
  "rmatch (Atom c) (s, g) = (case s of [] \<Rightarrow> [] | x # xs \<Rightarrow> if cls_match c x then [(xs, g)] else [])"
| "rmatch (Lits l) (s, g) = (if take (length l) s = l then [(drop (length l) s, g)] else [])"
| "rmatch (Seq a b) st = concat (map (rmatch b) (rmatch a st))"
| "rmatch (Alt a b) st = rmatch a st @ rmatch b st"
| "rmatch (Star c) (s, g) = map (\<lambda>r. (r, g)) (star_greedy c s)"
| "rmatch (Plus c) (s, g) =
     (case s of [] \<Rightarrow> [] | x # xs \<Rightarrow> if cls_match c x then map (\<lambda>r. (r, g)) (star_greedy c xs) else [])"
| "rmatch (Rep n c) (s, g) =
     (if n \<le> length s \<and> list_all (cls_match c) (take n s) then [(drop n s, g)] else [])"
| "rmatch (Group k r) (s, g) =
     map (\<lambda>(s', g'). (s', g'(k \<mapsto> take (length s - length s') s))) (rmatch r (s, g))"

text \<open>\<^verbatim>\<open>re.search\<close>: the first start position, from the left, at which the pattern matches.\<close>

fun re_search :: "regex \<Rightarrow> string \<Rightarrow> groups option" where
  "re_search r s =
     (case rmatch r (s, Map.empty) of
        m # _ \<Rightarrow> Some (snd m)
      | [] \<Rightarrow> (case s of [] \<Rightarrow> None | _ # t \<Rightarrow> re_search r t))"

text \<open>The groups that every match of a pattern is certain to capture.\<close>

fun bound :: "regex \<Rightarrow> nat set" where
  "bound (Group k r) = insert k (bound r)"
| "bound (Seq a b) = bound a \<union> bound b"
| "bound (Alt a b) = bound a \<inter> bound b"
| "bound _ = {}"

section \<open>dashboard.py: \<^verbatim>\<open>parse_filename\<close>\<close>

text \<open>
  The pattern \<^verbatim>\<open>(.+)_risk_(analysis|report)_(\d{8}_\d{6})\.(csv|txt)\<close>, split at the
  end of its first group.
\<close>

definition ts_re :: regex where
  "ts_re = Seq (Rep 8 Digit) (Seq (Lits ''_'') (Rep 6 Digit))"

definition tail_re :: regex where
  "tail_re =
     Seq (Lits ''_risk_'')
    (Seq (Group 2 (Alt (Lits ''analysis'') (Lits ''report'')))
    (Seq (Lits ''_'')
    (Seq (Group 3 ts_re)
    (Seq (Lits ''.'')
         (Group 4 (Alt (Lits ''csv'') (Lits ''txt'')))))))"

definition filename_re :: regex where
  "filename_re = Seq (Group 1 (Plus AnyChar)) tail_re"

text \<open>
  The function returns the triple \<^verbatim>\<open>(group(1), group(3), group(2))\<close> on a match and
  \<^verbatim>\<open>(None, None, None)\<close> otherwise.
\<close>

definition parse_filename :: "string \<Rightarrow> string option \<times> string option \<times> string option" where
  "parse_filename filename =
     (case re_search filename_re filename of
        Some g \<Rightarrow> (g 1, g 3, g 2)
      | None \<Rightarrow> (None, None, None))"

section \<open>dashboard.py: \<^verbatim>\<open>get_available_data\<close>\<close>

text \<open>
  The mapping \<^verbatim>\<open>{Token: {Date: {ftype: path}}}\<close>.  The innermost key is the third
  component of the parsed file name, which Python would allow to be \<^verbatim>\<open>None\<close>.
\<close>

type_synonym file_pair = "(string option, string) dict"
type_synonym data_tree = "(string, (string, file_pair) dict) dict"

text \<open>
  What the discovery reads and writes outside the program: the directory tree, through
  \<^verbatim>\<open>os.path.exists\<close> and \<^verbatim>\<open>os.listdir\<close>, and the console, through \<^verbatim>\<open>print\<close>.
\<close>

record world =
  path_exists :: "string \<Rightarrow> bool"
  listdir :: "string \<Rightarrow> exn + string list"
  stdout :: "data_tree list"

text \<open>\<^verbatim>\<open>os.path.join\<close> of two components on a POSIX system.\<close>

definition os_path_join :: "string \<Rightarrow> string \<Rightarrow> string" where
  "os_path_join a b =
     (if take 1 b = ''/'' then b
      else if a = [] \<or> last a = CHR ''/'' then a @ b
      else a @ ''/'' @ b)"

text \<open>Python truthiness of a value that is \<^verbatim>\<open>None\<close> or a string.\<close>

fun truthy :: "string option \<Rightarrow> bool" where
  "truthy None = False"
| "truthy (Some s) = (s \<noteq> [])"

text \<open>The body of the \<^verbatim>\<open>for f in files\<close> loop.\<close>

definition add_file :: "string \<Rightarrow> string \<Rightarrow> data_tree \<Rightarrow> data_tree" where
  "add_file folder_path f data_map =
     (case parse_filename f of
        (Some token, Some date_str, ftype) \<Rightarrow>
          if truthy (Some token) \<and> truthy (Some date_str) then
            let dm1 = (if token \<notin> set (dict_keys data_map)
                       then AList.update token [] data_map else data_map);
                dm2 = AList.map_entry token
                        (\<lambda>by_date. if date_str \<notin> set (dict_keys by_date)
                                    then AList.update date_str [] by_date else by_date) dm1;
                full_path = os_path_join folder_path f
            in AList.map_entry token
                 (AList.map_entry date_str (AList.update ftype full_path)) dm2
          else data_map
      | _ \<Rightarrow> data_map)"

definition get_available_data :: "string \<Rightarrow> world \<Rightarrow> (exn + data_tree) \<times> world" where
  "get_available_data folder_path w =
     (if \<not> path_exists w folder_path then (Inr [], w)
      else case listdir w folder_path of
             Inl e \<Rightarrow> (Inl e, w)
           | Inr files \<Rightarrow>
               let data_map = fold (add_file folder_path) files []
               in (Inr data_map, w\<lparr>stdout := stdout w @ [data_map]\<rparr>))"

section \<open>dashboard.py: \<^verbatim>\<open>parse_risk_report\<close>\<close>

text \<open>
  The metrics dictionary holds Python floats and ints.  The float type is a parameter
  \<open>'f\<close> of which only the zero is used; \<^verbatim>\<open>float()\<close> and \<^verbatim>\<open>int()\<close> are parameters as
  well, so every result below holds whatever they return or raise.
\<close>

datatype 'f pyval = PyFloat 'f | PyInt int

type_synonym 'f metrics = "string \<rightharpoonup> 'f pyval"

record 'f builtins =
  py_float :: "string option \<Rightarrow> exn + 'f"
  py_int :: "string option \<Rightarrow> exn + int"

datatype ui = StWarning string | StError string | StCaption string

definition initial_metrics :: "('f::zero) metrics" where
  "initial_metrics =
     [''global_health'' \<mapsto> PyFloat 0,
      ''global_risk'' \<mapsto> PyFloat 0,
      ''concentration_risk'' \<mapsto> PyFloat 0,
      ''bot_risk'' \<mapsto> PyFloat 0,
      ''wash_trading_risk'' \<mapsto> PyFloat 0,
      ''dist_critical'' \<mapsto> PyInt 0,
      ''dist_high'' \<mapsto> PyInt 0,
      ''dist_medium'' \<mapsto> PyInt 0,
      ''dist_low'' \<mapsto> PyInt 0]"

text \<open>\<^verbatim>\<open><label>\s*([\d\.]+)\<close> and \<^verbatim>\<open><label>\s*:\s*(\d+)\s*wallets\<close>.\<close>

definition score_re :: "string \<Rightarrow> regex" where
  "score_re label = Seq (Lits label) (Seq (Star Space) (Group 1 (Plus DigitOrDot)))"

definition count_re :: "string \<Rightarrow> regex" where
  "count_re label =
     Seq (Lits label) (Seq (Star Space) (Seq (Lits '':'') (Seq (Star Space)
    (Seq (Group 1 (Plus Digit)) (Seq (Star Space) (Lits ''wallets''))))))"

text \<open>
  A statement of the \<^verbatim>\<open>try\<close> body maps the dictionary to the dictionary after it, with
  the exception it raised, if any.  A statement that raises leaves the dictionary as the
  earlier statements made it.
\<close>

type_synonym 'f stmt = "'f metrics \<Rightarrow> exn option \<times> 'f metrics"

definition extract_float :: "'f builtins \<Rightarrow> string \<Rightarrow> string \<Rightarrow> string \<Rightarrow> 'f stmt" where
  "extract_float rt label key content metrics =
     (case re_search (score_re label) content of
        None \<Rightarrow> (None, metrics)
      | Some g \<Rightarrow>
          (case py_float rt (g 1) of
             Inl e \<Rightarrow> (Some e, metrics)
           | Inr v \<Rightarrow> (None, metrics(key \<mapsto> PyFloat v))))"

definition extract_count :: "'f builtins \<Rightarrow> string \<Rightarrow> string \<Rightarrow> string \<Rightarrow> 'f stmt" where
  "extract_count rt label key content metrics =
     (case re_search (count_re label) content of
        None \<Rightarrow> (None, metrics)
      | Some g \<Rightarrow>
          (case py_int rt (g 1) of
             Inl e \<Rightarrow> (Some e, metrics)
           | Inr v \<Rightarrow> (None, metrics(key \<mapsto> PyInt v))))"

definition and_then :: "'f stmt \<Rightarrow> 'f stmt \<Rightarrow> 'f stmt" where
  "and_then p q metrics =
     (case p metrics of
        (Some e, m) \<Rightarrow> (Some e, m)
      | (None, m) \<Rightarrow> q m)"

definition parse_body :: "'f builtins \<Rightarrow> string \<Rightarrow> 'f stmt" where
  "parse_body rt content =
     and_then (extract_float rt ''TOKEN GLOBAL HEALTH SCORE:'' ''global_health'' content)
    (and_then (extract_float rt ''Global Risk Score:'' ''global_risk'' content)
    (and_then (extract_float rt ''Concentration Risk:'' ''concentration_risk'' content)
    (and_then (extract_float rt ''Bot Activity Risk:'' ''bot_risk'' content)
    (and_then (extract_float rt ''Wash Trading Risk:'' ''wash_trading_risk'' content)
    (and_then (extract_count rt ''CRITICAL'' ''dist_critical'' content)
    (and_then (extract_count rt ''HIGH'' ''dist_high'' content)
    (and_then (extract_count rt ''MEDIUM'' ''dist_medium'' content)
              (extract_count rt ''LOW'' ''dist_low'' content))))))))"

text \<open>
  \<^verbatim>\<open>read_text path\<close> is \<^verbatim>\<open>open(path, 'r').read()\<close>.  The function's result is a Python
  call result, together with what it showed through \<^verbatim>\<open>st.error\<close>.
\<close>

definition parse_risk_report ::
  "('f::zero) builtins \<Rightarrow> (string \<Rightarrow> exn + string) \<Rightarrow> string \<Rightarrow> (exn + 'f metrics) \<times> ui list" where
  "parse_risk_report rt read_text file_path =
     (let (raised, metrics) =
            (case read_text file_path of
               Inl e \<Rightarrow> (Some e, initial_metrics)
             | Inr content \<Rightarrow> parse_body rt content initial_metrics)
      in (Inr metrics,
          case raised of
            None \<Rightarrow> []
          | Some e \<Rightarrow> [StError (''Error parsing text report: '' @ exn_str e)]))"

section \<open>dashboard.py: \<^verbatim>\<open>load_csv_data\<close> and the top-10 table\<close>

text \<open>
  A data frame is its column labels and its rows, one cell per column.  A cell of the
  frame is text, a number or not-a-number.  The numeric type \<open>'s\<close> is any linear order.
\<close>

datatype 's cell = Text string | Number 's | NaN

record 's dataframe =
  df_columns :: "string list"
  df_rows :: "'s cell list list"

definition empty_frame :: "'s dataframe" where
  "empty_frame = \<lparr>df_columns = [], df_rows = []\<rparr>"

definition df_empty :: "'s dataframe \<Rightarrow> bool" where
  "df_empty df = (df_columns df = [] \<or> df_rows df = [])"

fun column_index :: "string \<Rightarrow> string list \<Rightarrow> nat option" where
  "column_index c [] = None"
| "column_index c (x # xs) = (if x = c then Some 0 else map_option Suc (column_index c xs))"

text \<open>A row shorter than the header reads as not-a-number in the missing columns.\<close>

definition get_cell :: "nat \<Rightarrow> 's cell list \<Rightarrow> 's cell" where
  "get_cell i row = (if i < length row then row ! i else NaN)"

text \<open>
  The pandas calls the viewer makes are parameters: \<^verbatim>\<open>pd.read_csv\<close>, the test
  \<^verbatim>\<open>pd.to_numeric\<close> applies to the text of one cell, and
  \<^verbatim>\<open>sort_values(by=..., ascending=False)\<close> with its default sorting algorithm, as a
  function of the sort key and the rows.
\<close>

record 's pandas =
  read_csv :: "string \<Rightarrow> exn + 's dataframe"
  to_number :: "string \<Rightarrow> 's option"
  sort_values_desc :: "('s cell list \<Rightarrow> 's option) \<Rightarrow> 's cell list list \<Rightarrow> 's cell list list"

text \<open>\<^verbatim>\<open>pd.to_numeric(..., errors='coerce')\<close> on one cell.\<close>

definition coerce :: "(string \<Rightarrow> 's option) \<Rightarrow> 's cell \<Rightarrow> 's cell" where
  "coerce to_num c =
     (case c of
        Text s \<Rightarrow> (case to_num s of None \<Rightarrow> NaN | Some x \<Rightarrow> Number x)
      | Number x \<Rightarrow> Number x
      | NaN \<Rightarrow> NaN)"

definition load_csv_data :: "'s pandas \<Rightarrow> string \<Rightarrow> (exn + 's dataframe) \<times> ui list" where
  "load_csv_data pd file_path =
     (case read_csv pd file_path of
        Inl e \<Rightarrow> (Inr empty_frame, [StError (''Error loading CSV: '' @ exn_str e)])
      | Inr df \<Rightarrow>
          (case column_index ''risk_score'' (df_columns df) of
             None \<Rightarrow>
               (Inr empty_frame,
                [StError (''Error loading CSV: '' @ exn_str (KeyError ''risk_score''))])
           | Some i \<Rightarrow>
               (Inr (df\<lparr>df_rows :=
                          map (\<lambda>row. row[i := coerce (to_number pd) (get_cell i row)]) (df_rows df)\<rparr>),
                [])))"

text \<open>The sort key of a row: its number in column \<open>i\<close>, or \<open>None\<close> for not-a-number.\<close>

definition score :: "nat \<Rightarrow> 's cell list \<Rightarrow> 's option" where
  "score i row = (case get_cell i row of Number x \<Rightarrow> Some x | _ \<Rightarrow> None)"

definition top_10 :: "'s pandas \<Rightarrow> 's dataframe \<Rightarrow> exn + 's dataframe" where
  "top_10 pd csv_df =
     (case column_index ''risk_score'' (df_columns csv_df) of
        None \<Rightarrow> Inl (KeyError ''risk_score'')
      | Some i \<Rightarrow>
          Inr (csv_df\<lparr>df_rows := take 10 (sort_values_desc pd (score i) (df_rows csv_df))\<rparr>))"

text \<open>
  What the pandas documentation promises of \<^verbatim>\<open>sort_values\<close> with the default
  \<^verbatim>\<open>kind='quicksort'\<close> and \<^verbatim>\<open>na_position='last'\<close>: the rows are rearranged, keys
  descend, and rows without a number come last.  The order of rows with equal keys is
  not part of it.
\<close>

fun not_after :: "('s::linorder) option \<Rightarrow> 's option \<Rightarrow> bool" where
  "not_after (Some x) (Some y) = (y \<le> x)"
| "not_after (Some x) None = True"
| "not_after None (Some y) = False"
| "not_after None None = True"

definition sort_values_contract ::
  "(('r \<Rightarrow> ('s::linorder) option) \<Rightarrow> 'r list \<Rightarrow> 'r list) \<Rightarrow> bool" where
  "sort_values_contract srt =
     (\<forall>key rows. mset (srt key rows) = mset rows \<and> sorted_wrt not_after (map key (srt key rows)))"

text \<open>
  Two sorting functions that meet the contract.  Both insert the rows one by one from
  the last to the first; the first places a row ahead of the rows with an equal key, so
  equal keys stay in table order, the second places it behind them.
\<close>

fun insert_ahead :: "('r \<Rightarrow> ('s::linorder) option) \<Rightarrow> 'r \<Rightarrow> 'r list \<Rightarrow> 'r list" where
  "insert_ahead key r [] = [r]"
| "insert_ahead key r (x # xs) =
     (if not_after (key r) (key x) then r # x # xs else x # insert_ahead key r xs)"

fun insert_behind :: "('r \<Rightarrow> ('s::linorder) option) \<Rightarrow> 'r \<Rightarrow> 'r list \<Rightarrow> 'r list" where
  "insert_behind key r [] = [r]"
| "insert_behind key r (x # xs) =
     (if not_after (key x) (key r) then x # insert_behind key r xs else r # x # xs)"

definition stable_sort_desc :: "('r \<Rightarrow> ('s::linorder) option) \<Rightarrow> 'r list \<Rightarrow> 'r list" where
  "stable_sort_desc key rows = foldr (insert_ahead key) rows []"

definition reversing_sort_desc :: "('r \<Rightarrow> ('s::linorder) option) \<Rightarrow> 'r list \<Rightarrow> 'r list" where
  "reversing_sort_desc key rows = foldr (insert_behind key) rows []"

section \<open>dashboard.py: selection and loading\<close>

text \<open>
  The module-level script from the scan of the data folder to the two loads.  The
  widget \<^verbatim>\<open>st.selectbox\<close> is a parameter that returns the option the user chose.
  The script stops after a warning when no token is found, and otherwise ends with the
  metrics and the data frame (the empty dictionary and the empty frame when it did not
  load them).  Captions are recorded without their pictographs.
\<close>

record ('f, 's) runtime =
  builtins :: "'f builtins"
  pandas :: "'s pandas"
  read_text :: "string \<Rightarrow> exn + string"
  selectbox :: "string \<Rightarrow> string list \<Rightarrow> string"

datatype ('f, 's) page = Stopped | Loaded "'f metrics" "'s dataframe"

definition DATA_FOLDER :: string where
  "DATA_FOLDER = ''outputs/risk_score_analysis''"

fun show_ftype :: "string option \<Rightarrow> string" where
  "show_ftype None = ''None''"
| "show_ftype (Some s) = s"

definition load_report ::
  "(('f::zero), 's) runtime \<Rightarrow> string \<Rightarrow> (exn + 'f metrics) \<times> ui list" where
  "load_report env report_path =
     (if report_path \<noteq> [] then parse_risk_report (builtins env) (read_text env) report_path
      else (Inr Map.empty, [StError ''Text report file missing for this selection.'']))"

definition load_table :: "('f, 's) runtime \<Rightarrow> string \<Rightarrow> (exn + 's dataframe) \<times> ui list" where
  "load_table env analysis_path =
     (if analysis_path \<noteq> [] then load_csv_data (pandas env) analysis_path
      else (Inr empty_frame, [StError ''CSV analysis file missing for this selection.'']))"

definition load_selection ::
  "(('f::zero), 's) runtime \<Rightarrow> file_pair \<Rightarrow> (exn + ('f, 's) page) \<times> ui list" where
  "load_selection env files =
     (case dict_getitem show_ftype files (Some ''report'') of
        Inl e \<Rightarrow> (Inl e, [])
      | Inr report_path \<Rightarrow>
          let c1 = StCaption (''Report: '' @ (if report_path \<noteq> [] then ''Found'' else ''Missing''))
          in (case dict_getitem show_ftype files (Some ''analysis'') of
                Inl e \<Rightarrow> (Inl e, [c1])
              | Inr analysis_path \<Rightarrow>
                  let c2 = StCaption (''Data: '' @ (if analysis_path \<noteq> [] then ''Found'' else ''Missing''))
                  in (case load_report env report_path of
                        (Inl e, u1) \<Rightarrow> (Inl e, [c1, c2] @ u1)
                      | (Inr report_metrics, u1) \<Rightarrow>
                          (case load_table env analysis_path of
                             (Inl e, u2) \<Rightarrow> (Inl e, [c1, c2] @ u1 @ u2)
                           | (Inr csv_df, u2) \<Rightarrow>
                               (Inr (Loaded report_metrics csv_df), [c1, c2] @ u1 @ u2)))))"

definition viewer ::
  "(('f::zero), 's) runtime \<Rightarrow> world \<Rightarrow> (exn + ('f, 's) page) \<times> ui list \<times> world" where
  "viewer env w =
     (case get_available_data DATA_FOLDER w of
        (Inl e, w1) \<Rightarrow> (Inl e, [], w1)
      | (Inr data_tree, w1) \<Rightarrow>
          let tokens = dict_keys data_tree
          in if tokens = [] then
               (Inr Stopped, [StWarning (''No data files found in folder: '' @ DATA_FOLDER)], w1)
             else
               let selected_token = selectbox env ''Select Token'' tokens
               in (case dict_getitem id data_tree selected_token of
                     Inl e \<Rightarrow> (Inl e, [], w1)
                   | Inr by_date \<Rightarrow>
                       let dates = rev (sort (dict_keys by_date));
                           selected_date = selectbox env ''Select Analysis Date'' dates
                       in (case dict_getitem id by_date selected_date of
                             Inl e \<Rightarrow> (Inl e, [], w1)
                           | Inr files \<Rightarrow>
                               (case load_selection env files of
                                  (r, u) \<Rightarrow> (r, u, w1)))))"

text \<open>The last section of the script: the table is shown unless the frame is empty.\<close>

definition top_10_section :: "'s pandas \<Rightarrow> 's dataframe \<Rightarrow> exn + 's dataframe option" where
  "top_10_section pd csv_df =
     (if df_empty csv_df then Inr None
      else case top_10 pd csv_df of Inl e \<Rightarrow> Inl e | Inr t \<Rightarrow> Inr (Some t))"

section \<open>full_risk_score_analysis.py: the pipeline\<close>

text \<open>
  The configuration object, with the result of \<^verbatim>\<open>config.validate()\<close> as a field.
\<close>

record config =
  CHAIN :: string
  ARKHAM_API_KEY :: string
  TOKENS :: "string list"
  TIME_WINDOW :: int
  QUICK_MODE :: bool
  OUTPUT_DIR :: string
  validate :: bool

text \<open>
  The imported modules are parameters.  Each call takes the state \<open>'w\<close> of everything
  outside the script (network, files, the objects the modules keep) and returns the new
  state with either a result or the exception it raised.  The statements of one
  \<^verbatim>\<open>try\<close> block, and the three unguarded statements of the wash-trading step, are one
  call each.  The holder data is \<open>None\<close> when it is falsy; the transfer flows are \<open>None\<close>
  or a list of rows, empty when \<^verbatim>\<open>user_flows.empty\<close>.
\<close>

type_synonym ('w, 'a) call = "'w \<Rightarrow> (exn + 'a) \<times> 'w"

record ('w, 'h, 'r, 'wd, 'bd) modules =
  live_data_fetcher :: "string \<Rightarrow> ('w, unit) call"
  fetch_token_holders :: "string \<Rightarrow> string \<Rightarrow> ('w, 'h option) call"
  holder_analysis :: "string \<Rightarrow> 'h \<Rightarrow> ('w, unit) call"
  fetch_and_process_token :: "string \<Rightarrow> ('w, 'r list option) call"
  to_csv :: "'r list \<Rightarrow> string \<Rightarrow> ('w, unit) call"
  wash_trading :: "string \<Rightarrow> ('w, 'wd) call"
  bot_detection :: "string \<Rightarrow> 'r list \<Rightarrow> int \<Rightarrow> nat option \<Rightarrow> ('w, 'bd) call"
  combined_report :: "'wd \<Rightarrow> 'bd \<Rightarrow> string \<Rightarrow> string \<Rightarrow> ('w, unit) call"

text \<open>
  What a run does, in order: the calls it made, each with the exception it raised if
  any, and the lines it printed.
\<close>

datatype stage =
    FetchHolders | HolderAnalysis | FetchFlows | SaveFlows
  | WashTrading | BotDetection | CombinedReport

datatype message =
    StartBanner string
  | AnalyzingToken string
  | HolderAnalysisFailed exn
  | SkippingHolderAnalysis
  | SkippingTransferAnalysis
  | BotDetectionFailed exn
  | CombinedAnalysisFailed exn
  | PipelineComplete string

datatype event = Called stage string "exn option" | Printed message

text \<open>
  The outcome of a piece of the loop body: the exception that escapes it, if any, the
  events and the new state.  An outcome without exception covers both \<^verbatim>\<open>continue\<close> and
  reaching the end of the body.
\<close>

type_synonym 'w outcome = "exn option \<times> event list \<times> 'w"

definition emit :: "event list \<Rightarrow> 'w outcome \<Rightarrow> 'w outcome" where
  "emit evs out = (case out of (r, tr, w) \<Rightarrow> (r, evs @ tr, w))"

text \<open>Step 6: the combined report, inside \<^verbatim>\<open>try\<close>.\<close>

definition combined_step ::
  "config \<Rightarrow> ('w, 'h, 'r, 'wd, 'bd) modules \<Rightarrow> string \<Rightarrow> 'wd \<Rightarrow> 'bd \<Rightarrow> 'w \<Rightarrow> 'w outcome" where
  "combined_step cfg m token_address wash_detector bot_detector w =
     (case combined_report m wash_detector bot_detector token_address (OUTPUT_DIR cfg) w of
        (Inl e, w1) \<Rightarrow>
          (None, [Called CombinedReport token_address (Some e), Printed (CombinedAnalysisFailed e)], w1)
      | (Inr u, w1) \<Rightarrow> (None, [Called CombinedReport token_address None], w1))"

text \<open>Step 5: bot detection, inside \<^verbatim>\<open>try\<close>; the handler ends with \<^verbatim>\<open>continue\<close>.\<close>

definition bot_step ::
  "config \<Rightarrow> ('w, 'h, 'r, 'wd, 'bd) modules \<Rightarrow> string \<Rightarrow> 'r list \<Rightarrow> 'wd \<Rightarrow> 'w \<Rightarrow> 'w outcome" where
  "bot_step cfg m token_address user_flows wash_detector w =
     (let sample = (if QUICK_MODE cfg then Some 50 else None)
      in case bot_detection m (ARKHAM_API_KEY cfg) user_flows (TIME_WINDOW cfg) sample w of
           (Inl e, w1) \<Rightarrow>
             (None, [Called BotDetection token_address (Some e), Printed (BotDetectionFailed e)], w1)
         | (Inr bot_detector, w1) \<Rightarrow>
             emit [Called BotDetection token_address None]
               (combined_step cfg m token_address wash_detector bot_detector w1))"

text \<open>Step 4: wash trading; the \<^verbatim>\<open>try\<close> around it is commented out.\<close>

definition wash_step ::
  "config \<Rightarrow> ('w, 'h, 'r, 'wd, 'bd) modules \<Rightarrow> string \<Rightarrow> 'r list \<Rightarrow> string \<Rightarrow> 'w \<Rightarrow> 'w outcome" where
  "wash_step cfg m token_address user_flows temp_filename w =
     (case wash_trading m temp_filename w of
        (Inl e, w1) \<Rightarrow> (Some e, [Called WashTrading token_address (Some e)], w1)
      | (Inr wash_detector, w1) \<Rightarrow>
          emit [Called WashTrading token_address None]
            (bot_step cfg m token_address user_flows wash_detector w1))"

text \<open>Step 3: the transfer flows and the temporary file.\<close>

definition flows_step ::
  "config \<Rightarrow> ('w, 'h, 'r, 'wd, 'bd) modules \<Rightarrow> string \<Rightarrow> 'w \<Rightarrow> 'w outcome" where
  "flows_step cfg m token_address w =
     (case fetch_and_process_token m token_address w of
        (Inl e, w1) \<Rightarrow> (Some e, [Called FetchFlows token_address (Some e)], w1)
      | (Inr None, w1) \<Rightarrow>
          (None, [Called FetchFlows token_address None, Printed SkippingTransferAnalysis], w1)
      | (Inr (Some []), w1) \<Rightarrow>
          (None, [Called FetchFlows token_address None, Printed SkippingTransferAnalysis], w1)
      | (Inr (Some (r # rs)), w1) \<Rightarrow>
          let user_flows = r # rs;
              temp_filename = ''temp_'' @ token_address @ ''_flows.csv''
          in emit [Called FetchFlows token_address None]
               (case to_csv m user_flows (''outputs/data/processed/'' @ temp_filename) w1 of
                  (Inl e, w2) \<Rightarrow> (Some e, [Called SaveFlows token_address (Some e)], w2)
                | (Inr u, w2) \<Rightarrow>
                    emit [Called SaveFlows token_address None]
                      (wash_step cfg m token_address user_flows temp_filename w2)))"

text \<open>Steps 1 and 2, followed by the rest of the loop body.\<close>

definition process_token ::
  "config \<Rightarrow> ('w, 'h, 'r, 'wd, 'bd) modules \<Rightarrow> string \<Rightarrow> 'w \<Rightarrow> 'w outcome" where
  "process_token cfg m token_address w =
     emit [Printed (AnalyzingToken token_address)]
       (case fetch_token_holders m token_address (CHAIN cfg) w of
          (Inl e, w1) \<Rightarrow> (Some e, [Called FetchHolders token_address (Some e)], w1)
        | (Inr None, w1) \<Rightarrow>
            emit [Called FetchHolders token_address None, Printed SkippingHolderAnalysis]
              (flows_step cfg m token_address w1)
        | (Inr (Some holders_data), w1) \<Rightarrow>
            emit [Called FetchHolders token_address None]
              (case holder_analysis m token_address holders_data w1 of
                 (Inl e, w2) \<Rightarrow>
                   emit [Called HolderAnalysis token_address (Some e), Printed (HolderAnalysisFailed e)]
                     (flows_step cfg m token_address w2)
               | (Inr u, w2) \<Rightarrow>
                   emit [Called HolderAnalysis token_address None]
                     (flows_step cfg m token_address w2)))"

text \<open>
  The \<^verbatim>\<open>for\<close> loop: an exception that escapes the body ends the loop; otherwise the
  next token is processed in the state the body left.
\<close>

definition and_next :: "'w outcome \<Rightarrow> ('w \<Rightarrow> 'w outcome) \<Rightarrow> 'w outcome" where
  "and_next out k =
     (case out of
        (Some e, tr, w) \<Rightarrow> (Some e, tr, w)
      | (None, tr, w) \<Rightarrow> emit tr (k w))"

fun token_loop ::
  "config \<Rightarrow> ('w, 'h, 'r, 'wd, 'bd) modules \<Rightarrow> string list \<Rightarrow> 'w \<Rightarrow> 'w outcome" where
  "token_loop cfg m [] w = (None, [], w)"
| "token_loop cfg m (token_address # rest) w =
     and_next (process_token cfg m token_address w) (token_loop cfg m rest)"

datatype exit_status = Completed | SysExit int | Uncaught exn

definition main ::
  "config \<Rightarrow> ('w, 'h, 'r, 'wd, 'bd) modules \<Rightarrow> 'w \<Rightarrow> exit_status \<times> event list \<times> 'w" where
  "main cfg m w =
     (if \<not> validate cfg then (SysExit 1, [], w)
      else case live_data_fetcher m (ARKHAM_API_KEY cfg) w of
             (Inl e, w1) \<Rightarrow> (Uncaught e, [Printed (StartBanner (CHAIN cfg))], w1)
           | (Inr u, w1) \<Rightarrow>
               (case token_loop cfg m (TOKENS cfg) w1 of
                  (Some e, tr, w2) \<Rightarrow> (Uncaught e, Printed (StartBanner (CHAIN cfg)) # tr, w2)
                | (None, tr, w2) \<Rightarrow>
                    (Completed,
                     Printed (StartBanner (CHAIN cfg)) # tr @ [Printed (PipelineComplete (OUTPUT_DIR cfg))],
                     w2)))"

text \<open>
  The line each \<^verbatim>\<open>except Exception as e\<close> handler of the loop prints, by the step it
  guards; the other steps have no handler.  A trace shows its guarded failures caught
  when every raising call of a guarded step is followed at once by that line.
\<close>

fun failure_message :: "stage \<Rightarrow> exn \<Rightarrow> message option" where
  "failure_message HolderAnalysis e = Some (HolderAnalysisFailed e)"
| "failure_message BotDetection e = Some (BotDetectionFailed e)"
| "failure_message CombinedReport e = Some (CombinedAnalysisFailed e)"
| "failure_message FetchHolders e = None"
| "failure_message FetchFlows e = None"
| "failure_message SaveFlows e = None"
| "failure_message WashTrading e = None"

definition caught_and_logged :: "event list \<Rightarrow> bool" where
  "caught_and_logged tr =
     (\<forall>s t e msg. Called s t (Some e) \<in> set tr \<and> failure_message s e = Some msg \<longrightarrow>
        (\<exists>tr1 tr2. tr = tr1 @ Called s t (Some e) # Printed msg # tr2))"

section \<open>Well-formed metrics and sample inputs\<close>

text \<open>
  The nine keys of the metrics dictionary, and the dictionaries that hold a float under
  each of the first five and an int under each of the last four, and nothing else.
\<close>

definition float_keys :: "string list" where
  "float_keys =
     [''global_health'', ''global_risk'', ''concentration_risk'', ''bot_risk'', ''wash_trading_risk'']"

definition count_keys :: "string list" where
  "count_keys = [''dist_critical'', ''dist_high'', ''dist_medium'', ''dist_low'']"

definition has_float :: "'f metrics \<Rightarrow> string \<Rightarrow> bool" where
  "has_float m k = (case m k of Some (PyFloat v) \<Rightarrow> True | _ \<Rightarrow> False)"

definition has_int :: "'f metrics \<Rightarrow> string \<Rightarrow> bool" where
  "has_int m k = (case m k of Some (PyInt n) \<Rightarrow> True | _ \<Rightarrow> False)"

definition complete_metrics :: "'f metrics \<Rightarrow> bool" where
  "complete_metrics m =
     (dom m = set (float_keys @ count_keys)
      \<and> list_all (has_float m) float_keys \<and> list_all (has_int m) count_keys)"

text \<open>
  One instance of the built-in conversions, for evaluating the parser on sample
  reports: decimal literals made of digits and at most one dot, read exactly.
\<close>

definition int_of_digits :: "string \<Rightarrow> int" where
  "int_of_digits s = foldl (\<lambda>n c. 10 * n + (int (of_char c) - 48)) 0 s"

definition float_literal_ok :: "string \<Rightarrow> bool" where
  "float_literal_ok s =
     (list_all (\<lambda>c. is_digit c \<or> c = CHR ''.'') s
      \<and> length (filter (\<lambda>c. c = CHR ''.'') s) \<le> 1
      \<and> list_ex is_digit s)"

definition decimal_value :: "string \<Rightarrow> real" where
  "decimal_value s =
     (let whole = takeWhile (\<lambda>c. c \<noteq> CHR ''.'') s;
          frac = drop 1 (dropWhile (\<lambda>c. c \<noteq> CHR ''.'') s)
      in real_of_int (int_of_digits whole) + real_of_int (int_of_digits frac) / 10 ^ length frac)"

definition sample_builtins :: "real builtins" where
  "sample_builtins =
     \<lparr>py_float = (\<lambda>x. case x of
          None \<Rightarrow> Inl (TypeError ''float() argument must be a string or a real number'')
        | Some s \<Rightarrow> if float_literal_ok s then Inr (decimal_value s)
                    else Inl (ValueError (''could not convert string to float: '' @ s))),
      py_int = (\<lambda>x. case x of
          None \<Rightarrow> Inl (TypeError ''int() argument must be a string or a real number'')
        | Some s \<Rightarrow> if s \<noteq> [] \<and> list_all is_digit s then Inr (int_of_digits s)
                    else Inl (ValueError (''invalid literal for int() with base 10: '' @ s)))\<rparr>"

text \<open>A report without the bot-activity and wash-trading lines and with one count.\<close>

definition sample_report :: string where
  "sample_report =
     ''TOKEN GLOBAL HEALTH SCORE: 72.5'' @ [CHR 0x0A] @
     ''Global Risk Score: 27.5'' @ [CHR 0x0A] @
     ''Concentration Risk: 40'' @ [CHR 0x0A] @
     ''HIGH     :    3 wallets'' @ [CHR 0x0A]"

text \<open>
  A data folder that holds the table of one run and no report, and a runtime in which
  the user keeps the default choice of every select box (its first option) and no file
  can be opened.
\<close>

definition only_table_world :: world where
  "only_table_world =
     \<lparr>path_exists = (\<lambda>p. p = ''outputs/risk_score_analysis''),
      listdir = (\<lambda>p. if p = ''outputs/risk_score_analysis''
                      then Inr [''ABC_risk_analysis_20240101_120000.csv'']
                      else Inl (OSError ''No such file or directory'')),
      stdout = []\<rparr>"

definition default_runtime :: "(real, real) runtime" where
  "default_runtime =
     \<lparr>builtins = sample_builtins,
      pandas = \<lparr>read_csv = (\<lambda>p. Inl (OSError ''No such file or directory'')),
                to_number = (\<lambda>s. if float_literal_ok s then Some (decimal_value s) else None),
                sort_values_desc = stable_sort_desc\<rparr>,
      read_text = (\<lambda>p. Inl (OSError ''No such file or directory'')),
      selectbox = (\<lambda>label options. hd options)\<rparr>"

text \<open>
  The table of the example in the specification: fifteen wallets in table order, with the
  risk scores 99, 95, 95, 80 and so on, already numeric.
\<close>

definition fifteen_wallets :: "real dataframe" where
  "fifteen_wallets =
     \<lparr>df_columns = [''wallet'', ''risk_score''],
      df_rows =
        [[Text ''w01'', Number 99], [Text ''w02'', Number 95], [Text ''w03'', Number 95],
         [Text ''w04'', Number 80], [Text ''w05'', Number 78], [Text ''w06'', Number 75],
         [Text ''w07'', Number 70], [Text ''w08'', Number 65], [Text ''w09'', Number 60],
         [Text ''w10'', Number 55], [Text ''w11'', Number 50], [Text ''w12'', Number 45],
         [Text ''w13'', Number 40], [Text ''w14'', Number 35], [Text ''w15'', Number 30]]\<rparr>"

text \<open>The wallets of a table, in row order.\<close>

definition wallets :: "'s dataframe \<Rightarrow> 's cell list" where
  "wallets df = map (get_cell 0) (df_rows df)"

definition sample_pandas ::
  "((real cell list \<Rightarrow> real option) \<Rightarrow> real cell list list \<Rightarrow> real cell list list) \<Rightarrow> real pandas" where
  "sample_pandas srt =
     \<lparr>read_csv = (\<lambda>p. Inl (OSError ''No such file or directory'')),
      to_number = (\<lambda>s. if float_literal_ok s then Some (decimal_value s) else None),
      sort_values_desc = srt\<rparr>"

text \<open>
  A table as \<^verbatim>\<open>pd.read_csv\<close> delivers it when one risk score is not a number: the
  column is text.  Eleven wallets, the second without a numeric score.
\<close>

definition mixed_table :: "real dataframe" where
  "mixed_table =
     \<lparr>df_columns = [''wallet'', ''risk_score''],
      df_rows =
        [[Text ''w01'', Text ''12.5''], [Text ''w02'', Text ''n/a''], [Text ''w03'', Text ''50''],
         [Text ''w04'', Text ''7''], [Text ''w05'', Text ''99''], [Text ''w06'', Text ''3.25''],
         [Text ''w07'', Text ''64''], [Text ''w08'', Text ''50''], [Text ''w09'', Text ''81''],
         [Text ''w10'', Text ''20''], [Text ''w11'', Text ''33'']]\<rparr>"

definition mixed_pandas :: "real pandas" where
  "mixed_pandas = (sample_pandas reversing_sort_desc)\<lparr>read_csv := \<lambda>p. Inr mixed_table\<rparr>"




section \<open>The sort behind \<^verbatim>\<open>sort_values\<close>: pandas \<^verbatim>\<open>nargsort\<close> over numpy's quicksort\<close>

text \<open>
  \<^verbatim>\<open>DataFrame.sort_values(by=..., ascending=False)\<close> with the default
  \<^verbatim>\<open>kind='quicksort'\<close> sorts one column through pandas' \<^verbatim>\<open>nargsort\<close>, which calls
  \<^verbatim>\<open>ndarray.argsort(kind='quicksort')\<close>.  The model follows numpy's scalar
  \<^verbatim>\<open>aquicksort_\<close> (npysort/quicksort.cpp): \<^verbatim>\<open>v\<close> is the array of values, \<^verbatim>\<open>tosort\<close> the
  array of indices that is permuted, and the pointers \<^verbatim>\<open>pl\<close>, \<^verbatim>\<open>pr\<close>, \<^verbatim>\<open>pm\<close>, \<^verbatim>\<open>pi\<close>,
  \<^verbatim>\<open>pj\<close>, \<^verbatim>\<open>pk\<close> are positions in \<^verbatim>\<open>tosort\<close> (\<open>p_i\<close> and \<open>p_j\<close> below).  A read outside the array and the
  heap-sort fallback taken when the partition depth is used up give \<open>None\<close>.
\<close>

definition SMALL_QUICKSORT :: int where
  "SMALL_QUICKSORT = 16"

fun npy_get_msb :: "nat \<Rightarrow> nat" where
  "npy_get_msb n = (if n \<le> 1 then 0 else Suc (npy_get_msb (n div 2)))"

definition deref :: "nat list \<Rightarrow> int \<Rightarrow> nat" where
  "deref tosort p = tosort ! nat p"

definition INTP_SWAP :: "nat list \<Rightarrow> int \<Rightarrow> int \<Rightarrow> nat list" where
  "INTP_SWAP tosort p q = tosort[nat p := deref tosort q, nat q := deref tosort p]"

definition in_array :: "nat list \<Rightarrow> int \<Rightarrow> bool" where
  "in_array tosort p = (0 \<le> p \<and> p < int (length tosort))"

text \<open>\<^verbatim>\<open>do { ++pi; } while (v[*pi] < vp);\<close>\<close>

function scan_up :: "('s::linorder) list \<Rightarrow> 's \<Rightarrow> nat list \<Rightarrow> int \<Rightarrow> int option" where
  "scan_up v vp tosort p_i =
     (if in_array tosort (p_i + 1) then
        (if v ! deref tosort (p_i + 1) < vp then scan_up v vp tosort (p_i + 1) else Some (p_i + 1))
      else None)"
  by pat_completeness auto
termination
  by (relation "measure (\<lambda>(v, vp, tosort, p_i). nat (int (length tosort) - p_i))")
     (auto simp: in_array_def)

text \<open>\<^verbatim>\<open>do { --pj; } while (vp < v[*pj]);\<close>\<close>

function scan_down :: "('s::linorder) list \<Rightarrow> 's \<Rightarrow> nat list \<Rightarrow> int \<Rightarrow> int option" where
  "scan_down v vp tosort p_j =
     (if in_array tosort (p_j - 1) then
        (if vp < v ! deref tosort (p_j - 1) then scan_down v vp tosort (p_j - 1) else Some (p_j - 1))
      else None)"
  by pat_completeness auto
termination
  by (relation "measure (\<lambda>(v, vp, tosort, p_j). nat p_j)") (auto simp: in_array_def)

text \<open>The \<^verbatim>\<open>for (;;)\<close> loop of the partition; the first argument bounds its rounds.\<close>

fun partition_loop ::
  "nat \<Rightarrow> ('s::linorder) list \<Rightarrow> 's \<Rightarrow> nat list \<Rightarrow> int \<Rightarrow> int \<Rightarrow> (nat list \<times> int) option" where
  "partition_loop 0 v vp tosort p_i p_j = None"
| "partition_loop (Suc fuel) v vp tosort p_i p_j =
     (case scan_up v vp tosort p_i of
        None \<Rightarrow> None
      | Some p_i' \<Rightarrow>
          (case scan_down v vp tosort p_j of
             None \<Rightarrow> None
           | Some p_j' \<Rightarrow>
               if p_i' \<ge> p_j' then Some (tosort, p_i')
               else partition_loop fuel v vp (INTP_SWAP tosort p_i' p_j') p_i' p_j'))"

text \<open>
  The state of the outer loop: the index array, the current range, the stack of ranges
  still to sort, the depth counter and the stack of saved depths.
\<close>

type_synonym qs_state = "nat list \<times> int \<times> int \<times> (int \<times> int) list \<times> int \<times> int list"

text \<open>\<^verbatim>\<open>while ((pr - pl) > SMALL_QUICKSORT) { ... }\<close>: median of three, partition, push.\<close>

fun partition_phase :: "nat \<Rightarrow> ('s::linorder) list \<Rightarrow> qs_state \<Rightarrow> qs_state option" where
  "partition_phase 0 v st = None"
| "partition_phase (Suc fuel) v (tosort, pl, pr, stack, cdepth, depth) =
     (if pr - pl > SMALL_QUICKSORT then
        let pm = pl + (pr - pl) div 2;
            t1 = (if v ! deref tosort pm < v ! deref tosort pl then INTP_SWAP tosort pm pl else tosort);
            t2 = (if v ! deref t1 pr < v ! deref t1 pm then INTP_SWAP t1 pr pm else t1);
            t3 = (if v ! deref t2 pm < v ! deref t2 pl then INTP_SWAP t2 pm pl else t2);
            vp = v ! deref t3 pm;
            t4 = INTP_SWAP t3 pm (pr - 1)
        in (case partition_loop (Suc fuel) v vp t4 pl (pr - 1) of
              None \<Rightarrow> None
            | Some (t5, p_i) \<Rightarrow>
                let t6 = INTP_SWAP t5 p_i (pr - 1)
                in if p_i - pl < pr - p_i then
                     partition_phase fuel v
                       (t6, pl, p_i - 1, (p_i + 1, pr) # stack, cdepth - 1, (cdepth - 1) # depth)
                   else
                     partition_phase fuel v
                       (t6, p_i + 1, pr, (pl, p_i - 1) # stack, cdepth - 1, (cdepth - 1) # depth))
      else Some (tosort, pl, pr, stack, cdepth, depth))"

text \<open>\<^verbatim>\<open>while (pj > pl && vp < v[*pk]) { *pj-- = *pk--; }\<close>\<close>

function shift_up :: "('s::linorder) list \<Rightarrow> 's \<Rightarrow> nat list \<Rightarrow> int \<Rightarrow> int \<Rightarrow> nat list \<times> int" where
  "shift_up v vp tosort pl p_j =
     (if p_j > pl \<and> vp < v ! deref tosort (p_j - 1)
      then shift_up v vp (tosort[nat p_j := deref tosort (p_j - 1)]) pl (p_j - 1)
      else (tosort, p_j))"
  by pat_completeness auto
termination
  by (relation "measure (\<lambda>(v, vp, tosort, pl, p_j). nat (p_j - pl))") auto

text \<open>The insertion sort of the range \<^verbatim>\<open>pl .. pr\<close>, from position \<^verbatim>\<open>pi\<close> on.\<close>

function insertion_sort :: "('s::linorder) list \<Rightarrow> nat list \<Rightarrow> int \<Rightarrow> int \<Rightarrow> int \<Rightarrow> nat list" where
  "insertion_sort v tosort pl pr p_i =
     (if p_i \<le> pr then
        let vi = deref tosort p_i;
            vp = v ! vi
        in (case shift_up v vp tosort pl p_i of
              (t, p_j) \<Rightarrow> insertion_sort v (t[nat p_j := vi]) pl pr (p_i + 1))
      else tosort)"
  by pat_completeness auto
termination
  by (relation "measure (\<lambda>(v, tosort, pl, pr, p_i). nat (pr + 1 - p_i))") auto

text \<open>The \<^verbatim>\<open>while (1)\<close> loop; the first argument bounds its rounds.\<close>

fun aquicksort_loop :: "nat \<Rightarrow> ('s::linorder) list \<Rightarrow> qs_state \<Rightarrow> nat list option" where
  "aquicksort_loop 0 v st = None"
| "aquicksort_loop (Suc fuel) v (tosort, pl, pr, stack, cdepth, depth) =
     (if cdepth < 0 then None
      else case partition_phase (Suc fuel) v (tosort, pl, pr, stack, cdepth, depth) of
             None \<Rightarrow> None
           | Some (t, pl', pr', stack', cdepth', depth') \<Rightarrow>
               let sorted_range = insertion_sort v t pl' pr' (pl' + 1)
               in (case stack' of
                     [] \<Rightarrow> Some sorted_range
                   | (l, r) # rest \<Rightarrow>
                       (case depth' of
                          [] \<Rightarrow> None
                        | d # ds \<Rightarrow> aquicksort_loop fuel v (sorted_range, l, r, rest, d, ds))))"

text \<open>\<^verbatim>\<open>argsort\<close>: the index array starts as \<^verbatim>\<open>0 .. num - 1\<close>.\<close>

definition argsort_quicksort :: "('s::linorder) list \<Rightarrow> nat list option" where
  "argsort_quicksort v =
     aquicksort_loop (Suc (length v)) v
       ([0..<length v], 0, int (length v) - 1, [], 2 * int (npy_get_msb (length v)), [])"

text \<open>
  pandas \<^verbatim>\<open>nargsort(items, kind='quicksort', ascending=False, na_position='last')\<close>:
  the positions without a number are set aside, the others are reversed, sorted
  ascending by \<^verbatim>\<open>argsort\<close>, reversed again, and the positions set aside are appended.
\<close>

definition nargsort_desc :: "('s::linorder) option list \<Rightarrow> nat list option" where
  "nargsort_desc items =
     (let idx = [0..<length items];
          non_nan_idx = rev (filter (\<lambda>i. items ! i \<noteq> None) idx);
          nan_idx = filter (\<lambda>i. items ! i = None) idx;
          non_nans = rev (List.map_filter id items)
      in case argsort_quicksort non_nans of
           None \<Rightarrow> None
         | Some order \<Rightarrow> Some (rev (map (\<lambda>k. non_nan_idx ! k) order) @ nan_idx))"

text \<open>The rows taken in the order of the indexer (none when the sort gave \<open>None\<close>).\<close>

definition numpy_sort_values_desc :: "('r \<Rightarrow> ('s::linorder) option) \<Rightarrow> 'r list \<Rightarrow> 'r list" where
  "numpy_sort_values_desc key rows =
     (case nargsort_desc (map key rows) of
        None \<Rightarrow> []
      | Some indexer \<Rightarrow> map (\<lambda>i. rows ! i) indexer)"

text \<open>
  Eighteen wallets in table order: the scores of the specification's example, 99, 95,
  95, 80, followed by fourteen lower scores in no particular order.
\<close>

definition eighteen_wallets :: "real dataframe" where
  "eighteen_wallets =
     \<lparr>df_columns = [''wallet'', ''risk_score''],
      df_rows =
        [[Text ''w01'', Number 99], [Text ''w02'', Number 95], [Text ''w03'', Number 95],
         [Text ''w04'', Number 80], [Text ''w05'', Number 18], [Text ''w06'', Number 73],
         [Text ''w07'', Number 9], [Text ''w08'', Number 33], [Text ''w09'', Number 16],
         [Text ''w10'', Number 64], [Text ''w11'', Number 58], [Text ''w12'', Number 61],
         [Text ''w13'', Number 49], [Text ''w14'', Number 27], [Text ''w15'', Number 13],
         [Text ''w16'', Number 63], [Text ''w17'', Number 4], [Text ''w18'', Number 50]]\<rparr>"

section \<open>Properties of the matcher\<close>

declare re_search.simps [simp del]

lemma star_greedy_last: "\<exists>ys. star_greedy c s = ys @ [s]"
  by (induction s) auto

lemma star_greedy_append:
  "list_all (cls_match c) tok \<Longrightarrow>
   star_greedy c (tok @ rest) = star_greedy c rest @ map (\<lambda>p. p @ rest) (tl (suffixes tok))"
  by (induction tok) auto

lemma rmatch_Lits_append: "rmatch (Lits l) (l @ s, g) = [(s, g)]"
  by simp

lemma rmatch_Rep_append:
  "length d = n \<Longrightarrow> list_all (cls_match c) d \<Longrightarrow> rmatch (Rep n c) (d @ s, g) = [(s, g)]"
  by simp

lemma kind_match:
  "kind = ''analysis'' \<or> kind = ''report'' \<Longrightarrow>
   rmatch (Alt (Lits ''analysis'') (Lits ''report'')) (kind @ s, g) = [(s, g)]"
  by auto

lemma ext_match:
  "ext = ''csv'' \<or> ext = ''txt'' \<Longrightarrow>
   rmatch (Alt (Lits ''csv'') (Lits ''txt'')) (ext @ s, g) = [(s, g)]"
  by auto

lemma ts_match:
  assumes "length d8 = 8" "list_all is_digit d8" "length d6 = 6" "list_all is_digit d6"
  shows "rmatch ts_re (d8 @ ''_'' @ d6 @ s, g) = [(s, g)]"
proof -
  have a: "rmatch (Rep 8 Digit) (d8 @ ''_'' @ d6 @ s, g) = [(''_'' @ d6 @ s, g)]"
    using assms by (intro rmatch_Rep_append) (simp_all add: list_all_iff)
  have b: "rmatch (Rep 6 Digit) (d6 @ s, g) = [(s, g)]"
    using assms by (intro rmatch_Rep_append) (simp_all add: list_all_iff)
  show ?thesis
    unfolding ts_re_def rmatch.simps(3) a using b by simp
qed

lemma rmatch_Group_single:
  "rmatch r (m @ s, g) = [(s, g)] \<Longrightarrow> rmatch (Group k r) (m @ s, g) = [(s, g(k \<mapsto> m))]"
  by simp

lemma rmatch_Seq_single:
  "rmatch a st = [st'] \<Longrightarrow> rmatch (Seq a b) st = rmatch b st'"
  by simp

lemma tail_match:
  assumes "kind = ''analysis'' \<or> kind = ''report''" "ext = ''csv'' \<or> ext = ''txt''"
    "length d8 = 8" "list_all is_digit d8" "length d6 = 6" "list_all is_digit d6"
  shows "rmatch tail_re (''_risk_'' @ kind @ ''_'' @ d8 @ ''_'' @ d6 @ ''.'' @ ext @ post, g)
    = [(post, g(2 \<mapsto> kind, 3 \<mapsto> d8 @ ''_'' @ d6, 4 \<mapsto> ext))]"
proof -
  let ?g2 = "g(2 \<mapsto> kind)"
  let ?g3 = "?g2(3 \<mapsto> d8 @ ''_'' @ d6)"
  have k: "rmatch (Group 2 (Alt (Lits ''analysis'') (Lits ''report'')))
             (kind @ ''_'' @ d8 @ ''_'' @ d6 @ ''.'' @ ext @ post, g)
           = [(''_'' @ d8 @ ''_'' @ d6 @ ''.'' @ ext @ post, ?g2)]"
    by (rule rmatch_Group_single, rule kind_match, rule assms)
  have "rmatch (Group 3 ts_re) ((d8 @ ''_'' @ d6) @ ''.'' @ ext @ post, ?g2)
           = [(''.'' @ ext @ post, ?g3)]"
    by (rule rmatch_Group_single) (use ts_match[OF assms(3-6)] in simp)
  then have t: "rmatch (Group 3 ts_re) (d8 @ ''_'' @ d6 @ ''.'' @ ext @ post, ?g2)
           = [(''.'' @ ext @ post, ?g3)]"
    by (simp only: append_assoc)
  have e: "rmatch (Group 4 (Alt (Lits ''csv'') (Lits ''txt''))) (ext @ post, ?g3)
           = [(post, ?g3(4 \<mapsto> ext))]"
    by (rule rmatch_Group_single, rule ext_match, rule assms)
  have "rmatch tail_re (''_risk_'' @ kind @ ''_'' @ d8 @ ''_'' @ d6 @ ''.'' @ ext @ post, g)
      = rmatch (Seq (Group 2 (Alt (Lits ''analysis'') (Lits ''report'')))
         (Seq (Lits ''_'') (Seq (Group 3 ts_re) (Seq (Lits ''.'')
         (Group 4 (Alt (Lits ''csv'') (Lits ''txt'')))))))
         (kind @ ''_'' @ d8 @ ''_'' @ d6 @ ''.'' @ ext @ post, g)"
    unfolding tail_re_def by (rule rmatch_Seq_single) (rule rmatch_Lits_append)
  also have "\<dots> = rmatch (Seq (Lits ''_'') (Seq (Group 3 ts_re) (Seq (Lits ''.'')
         (Group 4 (Alt (Lits ''csv'') (Lits ''txt''))))))
         (''_'' @ d8 @ ''_'' @ d6 @ ''.'' @ ext @ post, ?g2)"
    by (rule rmatch_Seq_single) (rule k)
  also have "\<dots> = rmatch (Seq (Group 3 ts_re) (Seq (Lits ''.'')
         (Group 4 (Alt (Lits ''csv'') (Lits ''txt'')))))
         (d8 @ ''_'' @ d6 @ ''.'' @ ext @ post, ?g2)"
    by (rule rmatch_Seq_single) (rule rmatch_Lits_append)
  also have "\<dots> = rmatch (Seq (Lits ''.'') (Group 4 (Alt (Lits ''csv'') (Lits ''txt''))))
         (''.'' @ ext @ post, ?g3)"
    by (rule rmatch_Seq_single) (rule t)
  also have "\<dots> = rmatch (Group 4 (Alt (Lits ''csv'') (Lits ''txt''))) (ext @ post, ?g3)"
    by (rule rmatch_Seq_single) (rule rmatch_Lits_append)
  finally show ?thesis using e by simp
qed


lemma star_greedy_strict:
  "star_greedy c s = P @ [s] \<Longrightarrow> r \<in> set P \<Longrightarrow> strict_suffix r s"
proof (induction s arbitrary: P r)
  case Nil
  then show ?case by simp
next
  case (Cons x xs)
  show ?case
  proof (cases "cls_match c x")
    case True
    with Cons.prems have P: "P = star_greedy c xs" by simp
    obtain ys where ys: "star_greedy c xs = ys @ [xs]"
      using star_greedy_last by blast
    have "suffix r xs"
    proof (cases "r \<in> set ys")
      case True
      then show ?thesis using Cons.IH[OF ys] by (simp add: strict_suffix_def)
    next
      case False
      then have "r = xs" using Cons.prems(2) P ys by auto
      then show ?thesis by simp
    qed
    then show ?thesis
      by (metis suffix_Cons strict_suffix_def suffix_order.dual_order.antisym suffix_ConsD' suffix_order.order_refl)
  next
    case False
    with Cons.prems show ?thesis by simp
  qed
qed

lemma rmatch_Seq_Lits_prefix:
  "rmatch (Seq (Lits l) b) (r, g) \<noteq> [] \<Longrightarrow> take (length l) r = l"
  by (simp split: if_splits)

lemma tail_re_prefix: "rmatch tail_re (r, g) \<noteq> [] \<Longrightarrow> take 6 r = ''_risk_''"
  unfolding tail_re_def by (drule rmatch_Seq_Lits_prefix) (simp add: eval_nat_numeral)

lemma no_inner_marker:
  assumes "CHR ''k'' \<notin> set rest" "strict_suffix r (''_risk'' @ rest)"
  shows "take 6 r \<noteq> ''_risk_''"
proof
  assume t: "take 6 r = ''_risk_''"
  from assms(2) have "r = ''risk'' @ rest \<or> r = ''isk'' @ rest \<or> r = ''sk'' @ rest
      \<or> r = ''k'' @ rest \<or> suffix r rest"
    by (auto simp: strict_suffix_def suffix_Cons)
  moreover have "\<not> suffix r rest"
  proof
    assume "suffix r rest"
    then have "set r \<subseteq> set rest" by (rule set_mono_suffix)
    moreover have "CHR ''k'' \<in> set (take 6 r)" by (simp add: t)
    then have "CHR ''k'' \<in> set r" by (rule in_set_takeD)
    ultimately show False using assms(1) by auto
  qed
  ultimately show False using t by auto
qed


lemma filename_re_first:
  assumes tok: "tok \<noteq> []" "list_all (cls_match AnyChar) tok"
    and tl: "list_all (cls_match AnyChar) tail"
    and k: "CHR ''k'' \<notin> set (drop 5 tail)" "take 5 tail = ''_risk''"
    and m: "\<And>g. rmatch tail_re (tail, g) = [([], G g)]"
  shows "\<exists>rest. rmatch filename_re (tok @ tail, g) = ([], G (g(1 \<mapsto> tok))) # rest"
proof -
  obtain x tok' where tok': "tok = x # tok'" using tok(1) by (cases tok) auto
  have x: "cls_match AnyChar x" and tok'm: "list_all (cls_match AnyChar) tok'"
    using tok(2) tok' by simp_all
  obtain P where P: "star_greedy AnyChar tail = P @ [tail]"
    using star_greedy_last by blast
  have tail_eq: "tail = ''_risk'' @ drop 5 tail"
    using k(2) by (metis append_take_drop_id)
  have fail: "rmatch tail_re (r, g') = []" if "r \<in> set P" for r g'
  proof (rule ccontr)
    assume "rmatch tail_re (r, g') \<noteq> []"
    then have "take 6 r = ''_risk_''" by (rule tail_re_prefix)
    moreover have "strict_suffix r (''_risk'' @ drop 5 tail)"
      using star_greedy_strict[OF P that] tail_eq by simp
    ultimately show False using no_inner_marker[OF k(1)] by blast
  qed
  let ?s = "tok @ tail"
  let ?cap = "\<lambda>r. (r, g(1 \<mapsto> take (length ?s - length r) ?s))"
  let ?Q = "map (\<lambda>p. p @ tail) (tl (suffixes tok'))"
  have sg: "star_greedy AnyChar (tok' @ tail) = P @ [tail] @ ?Q"
    using star_greedy_append[OF tok'm, of tail] P by simp
  have "rmatch (Group 1 (Plus AnyChar)) (?s, g) = map ?cap (star_greedy AnyChar (tok' @ tail))"
    using x by (simp add: tok' comp_def)
  then have "rmatch filename_re (?s, g)
      = concat (map (rmatch tail_re) (map ?cap (P @ [tail] @ ?Q)))"
    by (simp only: filename_re_def rmatch.simps sg)
  also have "\<dots> = concat (map (\<lambda>r. rmatch tail_re (?cap r)) P)
      @ rmatch tail_re (?cap tail) @ concat (map (\<lambda>r. rmatch tail_re (?cap r)) ?Q)"
    by (simp add: comp_def)
  also have "concat (map (\<lambda>r. rmatch tail_re (?cap r)) P) = []"
    using fail by simp
  also have "rmatch tail_re (?cap tail) = [([], G (g(1 \<mapsto> tok)))]"
    using m by simp
  finally show ?thesis by simp
qed

lemma re_search_hit: "rmatch r (s, Map.empty) = m # ms \<Longrightarrow> re_search r s = Some (snd m)"
  by (simp add: re_search.simps)


lemma rmatch_bound:
  "(s', g') \<in> set (rmatch r (s, g)) \<Longrightarrow> dom g \<union> bound r \<subseteq> dom g'"
proof (induction r arbitrary: s g s' g')
  case (Seq a b)
  then obtain s1 g1 where 1: "(s1, g1) \<in> set (rmatch a (s, g))"
    and 2: "(s', g') \<in> set (rmatch b (s1, g1))" by auto
  from Seq.IH(1)[OF 1] Seq.IH(2)[OF 2] show ?case by (simp del: rmatch.simps) blast
next
  case (Alt a b)
  then have "(s', g') \<in> set (rmatch a (s, g)) \<or> (s', g') \<in> set (rmatch b (s, g))" by auto
  then show ?case using Alt.IH by fastforce
next
  case (Group k r)
  then obtain g1 where 1: "(s', g1) \<in> set (rmatch r (s, g))"
    and 2: "g' = g1(k \<mapsto> take (length s - length s') s)" by auto
  from Group.IH[OF 1] 2 show ?case by auto
qed (auto split: list.splits if_splits)

lemma re_search_SomeD:
  "re_search r s = Some g \<Longrightarrow> \<exists>t s'. (s', g) \<in> set (rmatch r (t, Map.empty))"
proof (induction s)
  case Nil
  then show ?case by (auto simp: re_search.simps split: list.splits) (metis list.set_intros(1))
next
  case (Cons x xs)
  show ?case
  proof (cases "rmatch r (x # xs, Map.empty)")
    case Nil
    with Cons.prems have "re_search r xs = Some g" by (simp add: re_search.simps)
    then show ?thesis by (rule Cons.IH)
  next
    case (Cons m ms)
    with Cons.prems have "g = snd m" by (simp add: re_search.simps)
    then have "(fst m, g) \<in> set (rmatch r (x # xs, Map.empty))" using Cons by simp
    then show ?thesis by blast
  qed
qed

lemma re_search_append:
  "rmatch r (s, Map.empty) \<noteq> [] \<Longrightarrow> re_search r (pre @ s) \<noteq> None"
proof (induction pre)
  case Nil
  then show ?case by (cases "rmatch r (s, Map.empty)") (simp_all add: re_search.simps)
next
  case (Cons x pre)
  then show ?case
    by (cases "rmatch r (x # pre @ s, Map.empty)") (simp_all add: re_search.simps)
qed

lemma plus_shortest:
  "cls_match c x \<Longrightarrow> (xs, g) \<in> set (rmatch (Plus c) (x # xs, g))"
  using star_greedy_last[of c xs] by auto

lemma filename_re_hit:
  assumes "c \<noteq> CHR 0x0A" "rmatch tail_re (t, Map.empty(1 \<mapsto> [c])) \<noteq> []"
  shows "rmatch filename_re (c # t, Map.empty) \<noteq> []"
proof -
  have "(t, Map.empty(1 \<mapsto> [c])) \<in> set (rmatch (Group 1 (Plus AnyChar)) (c # t, Map.empty))"
    using plus_shortest[of AnyChar c t Map.empty] assms(1) by (force simp del: rmatch.simps(6) simp add: image_iff)
  then show ?thesis
    using assms(2) unfolding filename_re_def rmatch.simps(3) by (auto simp del: rmatch.simps)
qed

lemma parse_filename_Some:
  assumes "re_search filename_re f \<noteq> None"
  shows "\<exists>tok ts kind. parse_filename f = (Some tok, Some ts, Some kind)"
proof -
  from assms obtain g where g: "re_search filename_re f = Some g" by auto
  then obtain t s' where "(s', g) \<in> set (rmatch filename_re (t, Map.empty))"
    using re_search_SomeD by blast
  then have "bound filename_re \<subseteq> dom g" using rmatch_bound by blast
  then have "1 \<in> dom g" "2 \<in> dom g" "3 \<in> dom g" by (auto simp: filename_re_def tail_re_def)
  then show ?thesis by (auto simp: parse_filename_def g)
qed



lemma star_greedy_suffix: "r \<in> set (star_greedy c s) \<Longrightarrow> suffix r s"
  by (induction s) (auto simp: suffix_Cons split: if_splits)

lemma rmatch_suffix: "(s', g') \<in> set (rmatch r (s, g)) \<Longrightarrow> suffix s' s"
proof (induction r arbitrary: s g s' g')
  case (Seq a b)
  then obtain s1 g1 where 1: "(s1, g1) \<in> set (rmatch a (s, g))"
    and 2: "(s', g') \<in> set (rmatch b (s1, g1))" by auto
  from Seq.IH(1)[OF 1] Seq.IH(2)[OF 2] show ?case by (rule suffix_order.trans[rotated])
next
  case (Alt a b)
  then have "(s', g') \<in> set (rmatch a (s, g)) \<or> (s', g') \<in> set (rmatch b (s, g))" by auto
  then show ?case using Alt.IH by blast
next
  case (Group k r)
  then obtain g1 where "(s', g1) \<in> set (rmatch r (s, g))" by auto
  then show ?case by (rule Group.IH)
next
  case (Plus c)
  then show ?case
    by (auto simp: suffix_Cons split: list.splits if_splits dest: star_greedy_suffix)
qed (auto simp: suffix_drop star_greedy_suffix suffix_Cons split: list.splits if_splits)

lemma re_search_Some_suffix:
  "re_search r s = Some g \<Longrightarrow> \<exists>t. suffix t s \<and> rmatch r (t, Map.empty) \<noteq> []"
proof (induction s)
  case Nil
  then show ?case by (auto simp: re_search.simps split: list.splits)
next
  case (Cons x xs)
  show ?case
  proof (cases "rmatch r (x # xs, Map.empty)")
    case Nil
    with Cons.prems have "re_search r xs = Some g" by (simp add: re_search.simps)
    then obtain t where "suffix t xs" "rmatch r (t, Map.empty) \<noteq> []"
      using Cons.IH by blast
    then show ?thesis by (auto simp: suffix_Cons)
  next
    case (Cons m ms)
    then have "rmatch r (x # xs, Map.empty) \<noteq> []" by simp
    then show ?thesis by blast
  qed
qed

lemma prefix_suffix_sublist: "take (length l) t = l \<Longrightarrow> suffix t s \<Longrightarrow> sublist l s"
  by (metis append_take_drop_id suffix_def sublist_def)

text \<open>A pattern that starts with a literal matches only where that literal occurs.\<close>

lemma re_search_Lits_absent:
  assumes "\<not> sublist l s"
  shows "re_search (Seq (Lits l) b) s = None"
proof (rule ccontr)
  assume "re_search (Seq (Lits l) b) s \<noteq> None"
  then obtain g t where "suffix t s" "rmatch (Seq (Lits l) b) (t, Map.empty) \<noteq> []"
    using re_search_Some_suffix by blast
  then show False
    using assms prefix_suffix_sublist rmatch_Seq_Lits_prefix by blast
qed

lemma filename_re_absent:
  assumes "\<not> sublist ''_risk_'' f"
  shows "re_search filename_re f = None"
proof (rule ccontr)
  assume "re_search filename_re f \<noteq> None"
  then obtain g t where t: "suffix t f" "rmatch filename_re (t, Map.empty) \<noteq> []"
    using re_search_Some_suffix by blast
  then obtain s1 g1 where 1: "(s1, g1) \<in> set (rmatch (Group 1 (Plus AnyChar)) (t, Map.empty))"
    and 2: "rmatch tail_re (s1, g1) \<noteq> []"
    unfolding filename_re_def rmatch.simps(3) by (auto simp del: rmatch.simps)
  have "suffix s1 t" using 1 by (rule rmatch_suffix)
  then have "suffix s1 f" using t(1) by (rule suffix_order.trans)
  moreover have "take (length ''_risk_'') s1 = ''_risk_''"
    using tail_re_prefix[OF 2] by (simp add: eval_nat_numeral)
  ultimately show False using assms prefix_suffix_sublist by blast
qed

lemma digit_not_newline: "is_digit d \<Longrightarrow> cls_match AnyChar d"
  by (auto simp: is_digit_def)

lemma digit_not_k: "is_digit d \<Longrightarrow> d \<noteq> CHR ''k''"
  by (auto simp: is_digit_def)

section \<open>The file-name convention\<close>

lemma parse_filename_exact:
  assumes "token \<noteq> []" "CHR 0x0A \<notin> set token"
    and "kind = ''analysis'' \<or> kind = ''report''" "ext = ''csv'' \<or> ext = ''txt''"
    and "length date = 8" "list_all is_digit date" "length time = 6" "list_all is_digit time"
  shows "parse_filename (token @ ''_risk_'' @ kind @ ''_'' @ date @ ''_'' @ time @ ''.'' @ ext)
    = (Some token, Some (date @ ''_'' @ time), Some kind)"
proof -
  let ?tail = "''_risk_'' @ kind @ ''_'' @ date @ ''_'' @ time @ ''.'' @ ext"
  let ?G = "\<lambda>g::groups. g(2 \<mapsto> kind, 3 \<mapsto> date @ ''_'' @ time, 4 \<mapsto> ext)"
  have tok: "list_all (cls_match AnyChar) token"
    using assms(2) by (auto simp: list_all_iff)
  have dn: "list_all (cls_match AnyChar) date" "list_all (cls_match AnyChar) time"
    using assms(6,8) digit_not_newline by (auto simp: list_all_iff)
  have dk: "CHR ''k'' \<notin> set date" "CHR ''k'' \<notin> set time"
    using assms(6,8) digit_not_k by (auto simp: list_all_iff)
  have nl: "list_all (cls_match AnyChar) ?tail"
    using assms(3,4) dn by auto
  have k: "CHR ''k'' \<notin> set (drop 5 ?tail)"
    using assms(3,4) dk by auto
  have p: "take 5 ?tail = ''_risk''" by simp
  have m: "rmatch tail_re (?tail, g) = [([], ?G g)]" for g
    using tail_match[OF assms(3-8), of "[]" g] by simp
  obtain rest where "rmatch filename_re (token @ ?tail, Map.empty)
      = ([], ?G (Map.empty(1 \<mapsto> token))) # rest"
    using filename_re_first[OF assms(1) tok nl k p m] by blast
  then have "re_search filename_re (token @ ?tail) = Some (?G (Map.empty(1 \<mapsto> token)))"
    using re_search_hit by fastforce
  then show ?thesis by (simp add: parse_filename_def)
qed

text \<open>
  C7.  The file-name parser returns the no-match triple for \<^verbatim>\<open>foo.csv\<close>, and for any
  other name without the marker \<^verbatim>\<open>_risk_\<close>; it accepts
  \<^verbatim>\<open>ABC_risk_analysis_20240101_120000.csv\<close> as token \<^verbatim>\<open>ABC\<close>, timestamp
  \<^verbatim>\<open>20240101_120000\<close>, kind \<^verbatim>\<open>analysis\<close>; and every name built by the convention from a
  non-empty token on one line, underscores included, is parsed back to exactly that
  token, timestamp and kind.
\<close>

theorem parse_filename_convention:
  assumes "\<not> sublist ''_risk_'' other"
    and "token \<noteq> []" "CHR 0x0A \<notin> set token"
    and "kind = ''analysis'' \<or> kind = ''report''" "ext = ''csv'' \<or> ext = ''txt''"
    and "length date = 8" "list_all is_digit date" "length time = 6" "list_all is_digit time"
  shows "parse_filename ''foo.csv'' = (None, None, None)
    \<and> parse_filename other = (None, None, None)
    \<and> parse_filename ''ABC_risk_analysis_20240101_120000.csv''
        = (Some ''ABC'', Some ''20240101_120000'', Some ''analysis'')
    \<and> parse_filename (token @ ''_risk_'' @ kind @ ''_'' @ date @ ''_'' @ time @ ''.'' @ ext)
        = (Some token, Some (date @ ''_'' @ time), Some kind)"
proof -
  have "\<not> sublist ''_risk_'' ''foo.csv''"
    by (simp add: sublist_code(3))
  then have a: "parse_filename ''foo.csv'' = (None, None, None)"
    by (simp add: parse_filename_def filename_re_absent)
  have b: "parse_filename other = (None, None, None)"
    using assms(1) by (simp add: parse_filename_def filename_re_absent)
  have c: "parse_filename (''ABC'' @ ''_risk_'' @ ''analysis'' @ ''_'' @ ''20240101'' @ ''_'' @ ''120000'' @ ''.'' @ ''csv'')
      = (Some ''ABC'', Some (''20240101'' @ ''_'' @ ''120000''), Some ''analysis'')"
    by (rule parse_filename_exact) (simp_all add: is_digit_def)
  have d: "parse_filename (token @ ''_risk_'' @ kind @ ''_'' @ date @ ''_'' @ time @ ''.'' @ ext)
        = (Some token, Some (date @ ''_'' @ time), Some kind)"
    using assms(2-9) by (rule parse_filename_exact)
  from a b c d show ?thesis by simp
qed

theorem parse_filename_convention_witness:
  "\<not> sublist ''_risk_'' ''notes_risky.txt''
   \<and> ''MY_TOKEN_2'' \<noteq> [] \<and> CHR 0x0A \<notin> set ''MY_TOKEN_2''
   \<and> length ''20251130'' = 8 \<and> list_all is_digit ''20251130''
   \<and> length ''230334'' = 6 \<and> list_all is_digit ''230334''
   \<and> parse_filename ''notes_risky.txt'' = (None, None, None)
   \<and> parse_filename ''MY_TOKEN_2_risk_report_20251130_230334.txt''
       = (Some ''MY_TOKEN_2'', Some ''20251130_230334'', Some ''report'')"
proof -
  have h1: "\<not> sublist ''_risk_'' ''notes_risky.txt''"
    by (simp add: sublist_code(3))
  have h2: "''MY_TOKEN_2'' \<noteq> []" "CHR 0x0A \<notin> set ''MY_TOKEN_2''" by simp_all
  have h3: "''report'' = ''analysis'' \<or> ''report'' = ''report''"
    "''txt'' = ''csv'' \<or> ''txt'' = ''txt''" by simp_all
  have h4: "length ''20251130'' = 8" "list_all is_digit ''20251130''"
    "length ''230334'' = 6" "list_all is_digit ''230334''" by (simp_all add: is_digit_def)
  show ?thesis
    using parse_filename_convention[OF h1 h2 h3 h4] h1 h4 by simp
qed

text \<open>
  C9.  The pattern is searched for anywhere in the name and the kind is never compared
  with the extension: a name that contains, at any position and followed by anything,
  one character other than a line feed, then \<^verbatim>\<open>_risk_\<close>, a kind, eight digits, an
  underscore, six digits, a dot and an extension, yields a parsed triple.  So does the
  mismatched \<^verbatim>\<open>ABC_risk_report_20240101_120000.csv\<close>, with kind \<^verbatim>\<open>report\<close>, and a name
  with characters after the extension.
\<close>

theorem parse_filename_unanchored:
  assumes "c \<noteq> CHR 0x0A"
    and "kind = ''analysis'' \<or> kind = ''report''" "ext = ''csv'' \<or> ext = ''txt''"
    and "length date = 8" "list_all is_digit date" "length time = 6" "list_all is_digit time"
  shows "(\<exists>token ts k. parse_filename
            (pre @ [c] @ ''_risk_'' @ kind @ ''_'' @ date @ ''_'' @ time @ ''.'' @ ext @ post)
          = (Some token, Some ts, Some k))
    \<and> parse_filename ''ABC_risk_report_20240101_120000.csv''
        = (Some ''ABC'', Some ''20240101_120000'', Some ''report'')
    \<and> parse_filename ''ABC_risk_analysis_20240101_120000.csv.bak''
        = (Some ''ABC'', Some ''20240101_120000'', Some ''analysis'')"
proof -
  let ?t = "''_risk_'' @ kind @ ''_'' @ date @ ''_'' @ time @ ''.'' @ ext @ post"
  have "rmatch tail_re (?t, Map.empty(1 \<mapsto> [c])) \<noteq> []"
    using tail_match[OF assms(2-7)] by simp
  then have "rmatch filename_re (c # ?t, Map.empty) \<noteq> []"
    using assms(1) by (intro filename_re_hit)
  then have "re_search filename_re (pre @ c # ?t) \<noteq> None"
    by (rule re_search_append)
  then have a: "\<exists>token ts k. parse_filename (pre @ [c] @ ?t) = (Some token, Some ts, Some k)"
    using parse_filename_Some by simp
  have b: "parse_filename (''ABC'' @ ''_risk_'' @ ''report'' @ ''_'' @ ''20240101'' @ ''_'' @ ''120000'' @ ''.'' @ ''csv'')
      = (Some ''ABC'', Some (''20240101'' @ ''_'' @ ''120000''), Some ''report'')"
    by (rule parse_filename_exact) (simp_all add: is_digit_def)
  have c: "parse_filename ''ABC_risk_analysis_20240101_120000.csv.bak''
      = (Some ''ABC'', Some ''20240101_120000'', Some ''analysis'')"
    by (simp add: parse_filename_def filename_re_def tail_re_def ts_re_def is_digit_def re_search.simps)
  from a b c show ?thesis by simp
qed

theorem parse_filename_unanchored_witness:
  "CHR ''/'' \<noteq> CHR 0x0A
   \<and> length ''20240101'' = 8 \<and> list_all is_digit ''20240101''
   \<and> length ''120000'' = 6 \<and> list_all is_digit ''120000''
   \<and> (\<exists>token ts k. parse_filename ''old/_risk_report_20240101_120000.csv.bak''
         = (Some token, Some ts, Some k))"
proof -
  have h1: "CHR ''/'' \<noteq> CHR 0x0A" by simp
  have h3: "''report'' = ''analysis'' \<or> ''report'' = ''report''"
    "''csv'' = ''csv'' \<or> ''csv'' = ''txt''" by simp_all
  have h4: "length ''20240101'' = 8" "list_all is_digit ''20240101''"
    "length ''120000'' = 6" "list_all is_digit ''120000''" by (simp_all add: is_digit_def)
  show ?thesis
    using parse_filename_unanchored[OF h1 h3 h4, of "''old''" "''.bak''"] h4 by simp
qed

section \<open>The report parser\<close>

lemma initial_complete: "complete_metrics initial_metrics"
  by (auto simp: complete_metrics_def initial_metrics_def float_keys_def count_keys_def
      has_float_def has_int_def)

lemma extract_float_complete:
  assumes "complete_metrics m" "key \<in> set float_keys"
  shows "complete_metrics (snd (extract_float rt label key content m))"
proof (cases "extract_float rt label key content m = (None, m)
    \<or> (\<exists>e. extract_float rt label key content m = (Some e, m))")
  case True
  then show ?thesis using assms(1) by auto
next
  case False
  then obtain v where v: "extract_float rt label key content m = (None, m(key \<mapsto> PyFloat v))"
    by (auto simp: extract_float_def split: option.splits sum.splits)
  have "key \<in> dom m" using assms by (auto simp: complete_metrics_def)
  then have d: "dom (m(key \<mapsto> PyFloat v)) = dom m" by auto
  have "key \<notin> set count_keys" using assms(2) by (auto simp: float_keys_def count_keys_def)
  then show ?thesis
    using assms(1) unfolding v complete_metrics_def snd_conv d
    by (auto simp: list_all_iff has_float_def has_int_def)
qed

lemma extract_count_complete:
  assumes "complete_metrics m" "key \<in> set count_keys"
  shows "complete_metrics (snd (extract_count rt label key content m))"
proof (cases "extract_count rt label key content m = (None, m)
    \<or> (\<exists>e. extract_count rt label key content m = (Some e, m))")
  case True
  then show ?thesis using assms(1) by auto
next
  case False
  then obtain v where v: "extract_count rt label key content m = (None, m(key \<mapsto> PyInt v))"
    by (auto simp: extract_count_def split: option.splits sum.splits)
  have "key \<in> dom m" using assms by (auto simp: complete_metrics_def)
  then have d: "dom (m(key \<mapsto> PyInt v)) = dom m" by auto
  have "key \<notin> set float_keys" using assms(2) by (auto simp: float_keys_def count_keys_def)
  then show ?thesis
    using assms(1) unfolding v complete_metrics_def snd_conv d
    by (auto simp: list_all_iff has_float_def has_int_def)
qed

lemma and_then_preserves:
  assumes "\<And>m. P m \<Longrightarrow> P (snd (p m))" "\<And>m. P m \<Longrightarrow> P (snd (q m))" "P m"
  shows "P (snd (and_then p q m))"
proof (cases "p m")
  case (Pair r m')
  then have "P m'" using assms(1)[OF assms(3)] by simp
  then show ?thesis using Pair assms(2)[of m'] by (cases r) (simp_all add: and_then_def)
qed

lemma parse_body_complete:
  "complete_metrics m \<Longrightarrow> complete_metrics (snd (parse_body rt content m))"
  unfolding parse_body_def
  by (intro and_then_preserves[where P = complete_metrics] extract_float_complete
      extract_count_complete) (simp_all add: float_keys_def count_keys_def)

lemma and_then_keeps:
  assumes "\<And>m. snd (p m) k = m k" "\<And>m. snd (q m) k = m k"
  shows "snd (and_then p q m) k = m k"
  using and_then_preserves[where P = "\<lambda>m'. m' k = m k" and p = p and q = q and m = m] assms
  by simp

lemma extract_float_keeps:
  "k \<noteq> key \<or> re_search (score_re label) content = None \<Longrightarrow>
   snd (extract_float rt label key content m) k = m k"
  by (auto simp: extract_float_def split: option.splits sum.splits)

lemma extract_count_keeps:
  "k \<noteq> key \<or> re_search (count_re label) content = None \<Longrightarrow>
   snd (extract_count rt label key content m) k = m k"
  by (auto simp: extract_count_def split: option.splits sum.splits)

lemma parse_body_bot:
  "re_search (score_re ''Bot Activity Risk:'') content = None
   \<Longrightarrow> snd (parse_body rt content m) ''bot_risk'' = m ''bot_risk''"
  unfolding parse_body_def
  by (intro and_then_keeps extract_float_keeps extract_count_keeps) simp_all


lemma parse_risk_report_read:
  "open_read path = Inr content \<Longrightarrow>
   fst (parse_risk_report rt open_read path) = Inr (snd (parse_body rt content initial_metrics))"
  by (simp add: parse_risk_report_def split: prod.splits)

lemma parse_risk_report_unreadable:
  "open_read path = Inl e \<Longrightarrow>
   parse_risk_report rt open_read path
     = (Inr initial_metrics, [StError (''Error parsing text report: '' @ exn_str e)])"
  by (simp add: parse_risk_report_def)

text \<open>
  C5.  Whatever else a readable report contains, a report without the text
  \<^verbatim>\<open>Bot Activity Risk:\<close> parses, with no exception, to metrics whose \<^verbatim>\<open>bot_risk\<close> is
  0.0; and each of the nine metrics keeps its default, 0.0 or 0, whenever the pattern
  of its own labelled line is found nowhere in the report.
\<close>

theorem missing_line_defaults:
  assumes "open_read path = Inr content"
  shows "\<exists>m. fst (parse_risk_report rt open_read path) = Inr m
    \<and> (\<not> sublist ''Bot Activity Risk:'' content \<longrightarrow> m ''bot_risk'' = Some (PyFloat 0))
    \<and> (re_search (score_re ''TOKEN GLOBAL HEALTH SCORE:'') content = None
         \<longrightarrow> m ''global_health'' = Some (PyFloat 0))
    \<and> (re_search (score_re ''Global Risk Score:'') content = None
         \<longrightarrow> m ''global_risk'' = Some (PyFloat 0))
    \<and> (re_search (score_re ''Concentration Risk:'') content = None
         \<longrightarrow> m ''concentration_risk'' = Some (PyFloat 0))
    \<and> (re_search (score_re ''Bot Activity Risk:'') content = None
         \<longrightarrow> m ''bot_risk'' = Some (PyFloat 0))
    \<and> (re_search (score_re ''Wash Trading Risk:'') content = None
         \<longrightarrow> m ''wash_trading_risk'' = Some (PyFloat 0))
    \<and> (re_search (count_re ''CRITICAL'') content = None \<longrightarrow> m ''dist_critical'' = Some (PyInt 0))
    \<and> (re_search (count_re ''HIGH'') content = None \<longrightarrow> m ''dist_high'' = Some (PyInt 0))
    \<and> (re_search (count_re ''MEDIUM'') content = None \<longrightarrow> m ''dist_medium'' = Some (PyInt 0))
    \<and> (re_search (count_re ''LOW'') content = None \<longrightarrow> m ''dist_low'' = Some (PyInt 0))"
proof -
  let ?m = "snd (parse_body rt content initial_metrics)"
  let ?i = "initial_metrics :: 'a metrics"
  have r: "fst (parse_risk_report rt open_read path) = Inr ?m"
    using assms by (rule parse_risk_report_read)
  have bot: "?m ''bot_risk'' = ?i ''bot_risk''"
    if "re_search (score_re ''Bot Activity Risk:'') content = None"
    using that unfolding parse_body_def
    by (intro and_then_keeps extract_float_keeps extract_count_keeps) simp_all
  have bot': "?m ''bot_risk'' = ?i ''bot_risk''" if "\<not> sublist ''Bot Activity Risk:'' content"
    using that bot by (simp add: score_re_def re_search_Lits_absent)
  have health: "?m ''global_health'' = ?i ''global_health''"
    if "re_search (score_re ''TOKEN GLOBAL HEALTH SCORE:'') content = None"
    using that unfolding parse_body_def
    by (intro and_then_keeps extract_float_keeps extract_count_keeps) simp_all
  have risk: "?m ''global_risk'' = ?i ''global_risk''"
    if "re_search (score_re ''Global Risk Score:'') content = None"
    using that unfolding parse_body_def
    by (intro and_then_keeps extract_float_keeps extract_count_keeps) simp_all
  have conc: "?m ''concentration_risk'' = ?i ''concentration_risk''"
    if "re_search (score_re ''Concentration Risk:'') content = None"
    using that unfolding parse_body_def
    by (intro and_then_keeps extract_float_keeps extract_count_keeps) simp_all
  have wash: "?m ''wash_trading_risk'' = ?i ''wash_trading_risk''"
    if "re_search (score_re ''Wash Trading Risk:'') content = None"
    using that unfolding parse_body_def
    by (intro and_then_keeps extract_float_keeps extract_count_keeps) simp_all
  have crit: "?m ''dist_critical'' = ?i ''dist_critical''"
    if "re_search (count_re ''CRITICAL'') content = None"
    using that unfolding parse_body_def
    by (intro and_then_keeps extract_float_keeps extract_count_keeps) simp_all
  have high: "?m ''dist_high'' = ?i ''dist_high''"
    if "re_search (count_re ''HIGH'') content = None"
    using that unfolding parse_body_def
    by (intro and_then_keeps extract_float_keeps extract_count_keeps) simp_all
  have med: "?m ''dist_medium'' = ?i ''dist_medium''"
    if "re_search (count_re ''MEDIUM'') content = None"
    using that unfolding parse_body_def
    by (intro and_then_keeps extract_float_keeps extract_count_keeps) simp_all
  have low: "?m ''dist_low'' = ?i ''dist_low''"
    if "re_search (count_re ''LOW'') content = None"
    using that unfolding parse_body_def
    by (intro and_then_keeps extract_float_keeps extract_count_keeps) simp_all
  have i: "?i ''bot_risk'' = Some (PyFloat 0)" "?i ''global_health'' = Some (PyFloat 0)"
    "?i ''global_risk'' = Some (PyFloat 0)" "?i ''concentration_risk'' = Some (PyFloat 0)"
    "?i ''wash_trading_risk'' = Some (PyFloat 0)" "?i ''dist_critical'' = Some (PyInt 0)"
    "?i ''dist_high'' = Some (PyInt 0)" "?i ''dist_medium'' = Some (PyInt 0)"
    "?i ''dist_low'' = Some (PyInt 0)"
    by (simp_all add: initial_metrics_def)
  show ?thesis
  proof (intro exI[of _ ?m] conjI impI)
    show "fst (parse_risk_report rt open_read path) = Inr ?m" by (rule r)
  next
    assume "\<not> sublist ''Bot Activity Risk:'' content"
    then have "?m ''bot_risk'' = ?i ''bot_risk''" by (rule bot')
    then show "?m ''bot_risk'' = Some (PyFloat 0)" by (simp only: i)
  qed (simp_all only: bot bot' health risk conc wash crit high med low i)
qed


text \<open>
  C10.  For every path the report parser returns, without raising, a dictionary with
  exactly the nine metric keys, a float under each of the five scores and an int under
  each of the four counts; when the file cannot be opened or read the dictionary is the
  one of defaults and the error is shown through \<^verbatim>\<open>st.error\<close>.
\<close>

theorem parse_risk_report_total:
  "\<exists>m. fst (parse_risk_report rt open_read path) = Inr m \<and> complete_metrics m
     \<and> (\<forall>e. open_read path = Inl e \<longrightarrow>
           m = initial_metrics
           \<and> snd (parse_risk_report rt open_read path)
               = [StError (''Error parsing text report: '' @ exn_str e)])"
proof (cases "open_read path")
  case (Inl e)
  then show ?thesis
    by (simp add: parse_risk_report_unreadable initial_complete)
next
  case (Inr content)
  then show ?thesis
    by (simp add: parse_risk_report_read parse_body_complete initial_complete)
qed

theorem parse_risk_report_total_witness:
  "\<exists>m. fst (parse_risk_report sample_builtins (\<lambda>p. Inl (OSError ''No such file or directory'')) ''missing.txt'')
         = Inr m
     \<and> complete_metrics m \<and> m = initial_metrics
     \<and> snd (parse_risk_report sample_builtins (\<lambda>p. Inl (OSError ''No such file or directory'')) ''missing.txt'')
         = [StError ''Error parsing text report: No such file or directory'']"
  using parse_risk_report_total[of sample_builtins
      "\<lambda>p. Inl (OSError ''No such file or directory'')" "''missing.txt''"]
  by simp

lemma sample_report_absent:
  "\<not> sublist ''Bot Activity Risk:'' sample_report"
  "re_search (score_re ''Wash Trading Risk:'') sample_report = None"
  "re_search (count_re ''LOW'') sample_report = None"
  by (simp_all add: sample_report_def sublist_code(3) score_re_def count_re_def
      re_search_Lits_absent)

theorem missing_line_defaults_witness:
  "\<not> sublist ''Bot Activity Risk:'' sample_report
   \<and> (\<exists>m. fst (parse_risk_report sample_builtins (\<lambda>p. Inr sample_report) ''report.txt'') = Inr m
        \<and> m ''bot_risk'' = Some (PyFloat 0)
        \<and> m ''wash_trading_risk'' = Some (PyFloat 0)
        \<and> m ''dist_low'' = Some (PyInt 0))"
proof -
  have h: "(\<lambda>p::string. Inr sample_report :: exn + string) ''report.txt'' = Inr sample_report"
    by simp
  show ?thesis
    using missing_line_defaults[of "\<lambda>p. Inr sample_report" "''report.txt''" sample_report
        sample_builtins, OF h] sample_report_absent
    by blast
qed

section \<open>Discovery and selection\<close>

text \<open>
  C8.  Discovery run a second time, in the state the first run left, returns the same
  mapping; a run changes neither what exists nor what the folder lists, only the
  console; and the mapping does not depend on the console.
\<close>

theorem discovery_idempotent:
  "fst (get_available_data folder (snd (get_available_data folder w)))
     = fst (get_available_data folder w)
   \<and> path_exists (snd (get_available_data folder w)) = path_exists w
   \<and> listdir (snd (get_available_data folder w)) = listdir w
   \<and> fst (get_available_data folder (w\<lparr>stdout := out\<rparr>)) = fst (get_available_data folder w)"
  by (simp add: get_available_data_def Let_def split: sum.splits)

lemma only_table_tree:
  "fst (get_available_data DATA_FOLDER only_table_world)
     = Inr [(''ABC'', [(''20240101_120000'',
              [(Some ''analysis'', ''outputs/risk_score_analysis/ABC_risk_analysis_20240101_120000.csv'')])])]"
proof -
  have p: "parse_filename (''ABC'' @ ''_risk_'' @ ''analysis'' @ ''_'' @ ''20240101'' @ ''_'' @ ''120000'' @ ''.'' @ ''csv'')
      = (Some ''ABC'', Some (''20240101'' @ ''_'' @ ''120000''), Some ''analysis'')"
    by (rule parse_filename_exact) (simp_all add: is_digit_def)
  show ?thesis
    using p
    by (simp add: get_available_data_def only_table_world_def DATA_FOLDER_def add_file_def
        dict_keys_def os_path_join_def Let_def)
qed

lemma load_selection_no_report:
  "map_of files (Some ''report'') = None \<Longrightarrow>
   load_selection env files = (Inl (KeyError ''report''), [])"
  by (simp add: load_selection_def dict_getitem_def)

lemma load_selection_no_table:
  "map_of files (Some ''report'') = Some p \<Longrightarrow> map_of files (Some ''analysis'') = None \<Longrightarrow>
   load_selection env files
     = (Inl (KeyError ''analysis''),
        [StCaption (''Report: '' @ (if p \<noteq> [] then ''Found'' else ''Missing''))])"
  by (simp add: load_selection_def dict_getitem_def)

text \<open>
  C2, at a folder that holds the table of a run and no report: the script ends with an
  uncaught \<^verbatim>\<open>KeyError\<close> raised by \<^verbatim>\<open>files['report']\<close>, before anything is shown.
\<close>

theorem viewer_missing_report_raises:
  "fst (viewer default_runtime only_table_world) = Inl (KeyError ''report'')
   \<and> fst (snd (viewer default_runtime only_table_world)) = []"
proof -
  obtain w1 where g: "get_available_data DATA_FOLDER only_table_world
      = (Inr [(''ABC'', [(''20240101_120000'',
              [(Some ''analysis'', ''outputs/risk_score_analysis/ABC_risk_analysis_20240101_120000.csv'')])])], w1)"
    using only_table_tree by (cases "get_available_data DATA_FOLDER only_table_world") simp
  show ?thesis
    by (simp add: viewer_def g dict_keys_def dict_getitem_def default_runtime_def
        load_selection_no_report)
qed


section \<open>Sorting and the top-10 table\<close>

lemma not_after_total: "\<not> not_after a b \<Longrightarrow> not_after b a"
  by (cases a; cases b) auto

lemma not_after_trans: "not_after a b \<Longrightarrow> not_after b c \<Longrightarrow> not_after a c"
  by (cases a; cases b; cases c) auto

lemma not_after_None: "not_after None b \<Longrightarrow> b = None"
  by (cases b) auto

lemma set_insert_ahead: "set (insert_ahead key r xs) = insert r (set xs)"
  by (induction xs) auto

lemma set_insert_behind: "set (insert_behind key r xs) = insert r (set xs)"
  by (induction xs) auto

lemma mset_insert_ahead: "mset (insert_ahead key r xs) = add_mset r (mset xs)"
  by (induction xs) auto

lemma mset_insert_behind: "mset (insert_behind key r xs) = add_mset r (mset xs)"
  by (induction xs) auto

lemma sorted_insert_ahead:
  "sorted_wrt not_after (map key xs) \<Longrightarrow> sorted_wrt not_after (map key (insert_ahead key r xs))"
proof (induction xs)
  case Nil
  then show ?case by simp
next
  case (Cons x xs)
  show ?case
  proof (cases "not_after (key r) (key x)")
    case True
    moreover have "\<forall>y\<in>set xs. not_after (key x) (key y)"
      using Cons.prems by simp
    ultimately have "\<forall>y\<in>set xs. not_after (key r) (key y)"
      using not_after_trans by blast
    then show ?thesis using True Cons.prems by simp
  next
    case False
    then have "not_after (key x) (key r)" by (rule not_after_total)
    then show ?thesis using False Cons by (simp add: set_insert_ahead)
  qed
qed

lemma sorted_insert_behind:
  "sorted_wrt not_after (map key xs) \<Longrightarrow> sorted_wrt not_after (map key (insert_behind key r xs))"
proof (induction xs)
  case Nil
  then show ?case by simp
next
  case (Cons x xs)
  show ?case
  proof (cases "not_after (key x) (key r)")
    case True
    then show ?thesis using Cons by (simp add: set_insert_behind)
  next
    case False
    then have rx: "not_after (key r) (key x)" by (rule not_after_total)
    moreover have "\<forall>y\<in>set xs. not_after (key x) (key y)"
      using Cons.prems by simp
    ultimately have "\<forall>y\<in>set xs. not_after (key r) (key y)"
      using not_after_trans by blast
    then show ?thesis using False rx Cons.prems by simp
  qed
qed

lemma stable_sort_desc_contract: "sort_values_contract stable_sort_desc"
proof -
  have "mset (foldr (insert_ahead key) rows []) = mset rows
      \<and> sorted_wrt not_after (map key (foldr (insert_ahead key) rows []))" for key :: "'a \<Rightarrow> 'b option" and rows
    by (induction rows) (simp_all add: mset_insert_ahead sorted_insert_ahead)
  then show ?thesis by (simp add: sort_values_contract_def stable_sort_desc_def)
qed

lemma reversing_sort_desc_contract: "sort_values_contract reversing_sort_desc"
proof -
  have "mset (foldr (insert_behind key) rows []) = mset rows
      \<and> sorted_wrt not_after (map key (foldr (insert_behind key) rows []))" for key :: "'a \<Rightarrow> 'b option" and rows
    by (induction rows) (simp_all add: mset_insert_behind sorted_insert_behind)
  then show ?thesis by (simp add: sort_values_contract_def reversing_sort_desc_def)
qed

lemma numbers_first:
  "sorted_wrt not_after ks \<Longrightarrow> n \<le> length (filter (\<lambda>k. k \<noteq> None) ks) \<Longrightarrow>
   \<forall>k\<in>set (take n ks). k \<noteq> None"
proof (induction ks arbitrary: n)
  case Nil
  then show ?case by simp
next
  case (Cons a ks)
  show ?case
  proof (cases a)
    case None
    have "\<forall>b\<in>set ks. not_after a b" using Cons.prems(1) by simp
    then have "\<forall>b\<in>set ks. b = None" using None not_after_None by blast
    then have "filter (\<lambda>k. k \<noteq> None) ks = []" by (simp add: filter_empty_conv)
    then have "n = 0" using Cons.prems(2) None by simp
    then show ?thesis by simp
  next
    case (Some x)
    show ?thesis
    proof (cases n)
      case 0
      then show ?thesis by simp
    next
      case (Suc n')
      then have n': "n' \<le> length (filter (\<lambda>k. k \<noteq> None) ks)" using Cons.prems(2) Some by simp
      have "sorted_wrt not_after ks" using Cons.prems(1) by simp
      then have "\<forall>k\<in>set (take n' ks). k \<noteq> None" using n' by (rule Cons.IH)
      then show ?thesis using Suc Some by simp
    qed
  qed
qed

lemma top_10_rows:
  "column_index ''risk_score'' (df_columns df) = Some i \<Longrightarrow>
   top_10 pd df = Inr (df\<lparr>df_rows := take 10 (sort_values_desc pd (score i) (df_rows df))\<rparr>)"
  by (simp add: top_10_def)

lemma top_10_rows_highest:
  assumes "sort_values_contract (sort_values_desc pd)"
    and "column_index ''risk_score'' (df_columns df) = Some i"
  shows "\<exists>t. top_10 pd df = Inr t
    \<and> df_columns t = df_columns df
    \<and> length (df_rows t) = min 10 (length (df_rows df))
    \<and> mset (df_rows t) \<subseteq># mset (df_rows df)
    \<and> sorted_wrt not_after (map (score i) (df_rows t))
    \<and> (\<forall>kept left. kept \<in> set (df_rows t) \<and> left \<in># mset (df_rows df) - mset (df_rows t)
          \<longrightarrow> not_after (score i kept) (score i left))"
proof -
  let ?S = "sort_values_desc pd (score i) (df_rows df)"
  have m: "mset ?S = mset (df_rows df)" and s: "sorted_wrt not_after (map (score i) ?S)"
    using assms(1) by (simp_all add: sort_values_contract_def)
  have len: "length ?S = length (df_rows df)"
    using m by (metis size_mset)
  have ms: "mset (df_rows df) = mset (take 10 ?S) + mset (drop 10 ?S)"
    unfolding m[symmetric] mset_append[symmetric] append_take_drop_id by (rule refl)
  have sub: "mset (take 10 ?S) \<subseteq># mset (df_rows df)"
    unfolding ms by (rule mset_subset_eq_add_left)
  have rest: "mset (df_rows df) - mset (take 10 ?S) = mset (drop 10 ?S)"
    unfolding ms by (rule add_diff_cancel_left')
  have "sorted_wrt not_after (map (score i) (take 10 ?S @ drop 10 ?S))"
    unfolding append_take_drop_id by (rule s)
  then have s': "sorted_wrt not_after (map (score i) (take 10 ?S) @ map (score i) (drop 10 ?S))"
    unfolding map_append .
  have cross: "not_after (score i kept) (score i left)"
    if "kept \<in> set (take 10 ?S)" "left \<in> set (drop 10 ?S)" for kept left
  proof -
    have "\<forall>x\<in>set (map (score i) (take 10 ?S)). \<forall>y\<in>set (map (score i) (drop 10 ?S)). not_after x y"
      using s' unfolding sorted_wrt_append by (rule conjunct2[OF conjunct2])
    moreover have "score i kept \<in> set (map (score i) (take 10 ?S))"
      "score i left \<in> set (map (score i) (drop 10 ?S))"
      using that by (auto simp: image_iff)
    ultimately show ?thesis by blast
  qed
  have st: "sorted_wrt not_after (map (score i) (take 10 ?S))"
    using s' unfolding sorted_wrt_append by (rule conjunct1)
  let ?t = "df\<lparr>df_rows := take 10 ?S\<rparr>"
  have t: "df_rows ?t = take 10 ?S" "df_columns ?t = df_columns df" by simp_all
  have l: "length (df_rows ?t) = min 10 (length (df_rows df))"
    unfolding t using len by simp
  have c: "\<forall>kept left. kept \<in> set (df_rows ?t) \<and> left \<in># mset (df_rows df) - mset (df_rows ?t)
          \<longrightarrow> not_after (score i kept) (score i left)"
    unfolding t rest using cross by (simp only: set_mset_mset) blast
  show ?thesis
  proof (intro exI[of _ ?t] conjI)
    show "top_10 pd df = Inr ?t" by (rule top_10_rows[OF assms(2)])
    show "df_columns ?t = df_columns df" by (rule t)
    show "length (df_rows ?t) = min 10 (length (df_rows df))" by (rule l)
    show "mset (df_rows ?t) \<subseteq># mset (df_rows df)" unfolding t by (rule sub)
    show "sorted_wrt not_after (map (score i) (df_rows ?t))" unfolding t by (rule st)
    show "\<forall>kept left. kept \<in> set (df_rows ?t) \<and> left \<in># mset (df_rows df) - mset (df_rows ?t)
          \<longrightarrow> not_after (score i kept) (score i left)" by (rule c)
  qed
qed



lemma fifteen_index: "column_index ''risk_score'' (df_columns fifteen_wallets) = Some 1"
  by (simp add: fifteen_wallets_def)

lemma coerce_cases: "coerce tn c = NaN \<or> (\<exists>x. coerce tn c = Number x)"
  by (auto simp: coerce_def split: cell.splits option.splits)

lemma get_cell_coerced:
  "get_cell i (row[i := coerce tn (get_cell i row)]) = coerce tn (get_cell i row)"
  by (simp add: get_cell_def coerce_def)

lemma score_coerced:
  "(score i (row[i := coerce tn (get_cell i row)]) \<noteq> None)
     = (coerce tn (get_cell i row) \<noteq> NaN)"
  using coerce_cases[of tn "get_cell i row"]
  by (auto simp: score_def get_cell_coerced)

lemma load_csv_data_ok:
  assumes "read_csv pd file_path = Inr df" "column_index ''risk_score'' (df_columns df) = Some i"
  shows "load_csv_data pd file_path
    = (Inr (df\<lparr>df_rows := map (\<lambda>row. row[i := coerce (to_number pd) (get_cell i row)]) (df_rows df)\<rparr>), [])"
  using assms by (simp add: load_csv_data_def)

lemma count_numbers_mset:
  assumes "mset S = mset R"
  shows "length (filter (\<lambda>k. k \<noteq> None) (map key S)) = length (filter (\<lambda>k. k \<noteq> None) (map key R))"
proof -
  have "mset (filter (\<lambda>k. k \<noteq> None) (map key S)) = mset (filter (\<lambda>k. k \<noteq> None) (map key R))"
    using assms by (metis mset_filter mset_map)
  then show ?thesis by (metis size_mset)
qed

text \<open>
  C6.  When the table is read, has a \<^verbatim>\<open>risk_score\<close> column, and at least ten of its rows
  have a numeric score, a row whose score cell is text that is not a number is loaded with
  not-a-number in that cell, nothing is raised and no error is shown; the top-10 table then
  has ten rows, every one with a numeric score, and the coerced row is not among them.
\<close>

theorem non_numeric_score_excluded:
  assumes "sort_values_contract (sort_values_desc pd)"
    and "read_csv pd file_path = Inr df"
    and "column_index ''risk_score'' (df_columns df) = Some i"
    and "j < length (df_rows df)"
    and "get_cell i (df_rows df ! j) = Text s" "to_number pd s = None"
    and "10 \<le> length (filter (\<lambda>row. coerce (to_number pd) (get_cell i row) \<noteq> NaN) (df_rows df))"
  shows "\<exists>df' t. load_csv_data pd file_path = (Inr df', [])
    \<and> length (df_rows df') = length (df_rows df)
    \<and> get_cell i (df_rows df' ! j) = NaN
    \<and> top_10 pd df' = Inr t
    \<and> length (df_rows t) = 10
    \<and> list_all (\<lambda>row. score i row \<noteq> None) (df_rows t)
    \<and> df_rows df' ! j \<notin> set (df_rows t)"
proof -
  let ?f = "\<lambda>row. row[i := coerce (to_number pd) (get_cell i row)]"
  let ?R = "map ?f (df_rows df)"
  let ?df' = "df\<lparr>df_rows := ?R\<rparr>"
  let ?S = "sort_values_desc pd (score i) ?R"
  let ?t = "?df'\<lparr>df_rows := take 10 ?S\<rparr>"
  have load: "load_csv_data pd file_path = (Inr ?df', [])"
    using assms(2,3) by (rule load_csv_data_ok)
  have rows': "df_rows ?df' = ?R" and cols': "df_columns ?df' = df_columns df" by simp_all
  have rj: "?R ! j = ?f (df_rows df ! j)" using assms(4) by simp
  have cj: "coerce (to_number pd) (get_cell i (df_rows df ! j)) = NaN"
    using assms(5,6) by (simp add: coerce_def)
  have nanj: "get_cell i (?R ! j) = NaN"
    unfolding rj get_cell_coerced by (rule cj)
  have scj: "score i (?R ! j) = None"
    using nanj by (simp add: score_def)
  have m: "mset ?S = mset ?R" and s: "sorted_wrt not_after (map (score i) ?S)"
    using assms(1) by (simp_all add: sort_values_contract_def)
  have "filter (\<lambda>k. k \<noteq> None) (map (score i) ?R)
      = map (score i) (filter (\<lambda>row. score i row \<noteq> None) ?R)"
    by (simp add: filter_map comp_def)
  also have "filter (\<lambda>row. score i row \<noteq> None) ?R
      = map ?f (filter (\<lambda>row. coerce (to_number pd) (get_cell i row) \<noteq> NaN) (df_rows df))"
    by (simp only: filter_map comp_def score_coerced)
  finally have "length (filter (\<lambda>k. k \<noteq> None) (map (score i) ?R))
      = length (filter (\<lambda>row. coerce (to_number pd) (get_cell i row) \<noteq> NaN) (df_rows df))"
    by simp
  then have ten: "10 \<le> length (filter (\<lambda>k. k \<noteq> None) (map (score i) ?S))"
    using assms(7) count_numbers_mset[OF m, of "score i"] by simp
  have "\<forall>k\<in>set (take 10 (map (score i) ?S)). k \<noteq> None"
    using s ten by (rule numbers_first)
  then have num: "\<forall>row\<in>set (take 10 ?S). score i row \<noteq> None"
    by (simp add: take_map)
  have "10 \<le> length (map (score i) ?S)"
    using ten length_filter_le[of "\<lambda>k. k \<noteq> None" "map (score i) ?S"] by (rule order_trans)
  then have "10 \<le> length ?S" by (simp only: length_map)
  then have len: "length (take 10 ?S) = 10" by simp
  have top: "top_10 pd ?df' = Inr ?t"
    using top_10_rows[of ?df' i pd] assms(3) by simp
  have out: "?R ! j \<notin> set (take 10 ?S)" using num scj by blast
  have lenR: "length ?R = length (df_rows df)" by simp
  show ?thesis
  proof (rule exI[of _ ?df'], rule exI[of _ ?t], intro conjI)
    show "load_csv_data pd file_path = (Inr ?df', [])" by (rule load)
    show "length (df_rows ?df') = length (df_rows df)" unfolding rows' by (rule lenR)
    show "get_cell i (df_rows ?df' ! j) = NaN" unfolding rows' by (rule nanj)
    show "top_10 pd ?df' = Inr ?t" by (rule top)
    show "length (df_rows ?t) = 10" using len by simp
    show "list_all (\<lambda>row. score i row \<noteq> None) (df_rows ?t)" using num by (simp add: list_all_iff)
    show "df_rows ?df' ! j \<notin> set (df_rows ?t)" using out by simp
  qed
qed

theorem non_numeric_score_excluded_witness:
  "sort_values_contract (sort_values_desc mixed_pandas)
   \<and> read_csv mixed_pandas ''run.csv'' = Inr mixed_table
   \<and> column_index ''risk_score'' (df_columns mixed_table) = Some 1
   \<and> 1 < length (df_rows mixed_table)
   \<and> get_cell 1 (df_rows mixed_table ! 1) = Text ''n/a''
   \<and> to_number mixed_pandas ''n/a'' = None
   \<and> 10 \<le> length (filter (\<lambda>row. coerce (to_number mixed_pandas) (get_cell 1 row) \<noteq> NaN)
                        (df_rows mixed_table))
   \<and> (\<exists>df' t. load_csv_data mixed_pandas ''run.csv'' = (Inr df', [])
         \<and> get_cell 1 (df_rows df' ! 1) = NaN
         \<and> top_10 mixed_pandas df' = Inr t
         \<and> length (df_rows t) = 10
         \<and> list_all (\<lambda>row. score 1 row \<noteq> None) (df_rows t)
         \<and> df_rows df' ! 1 \<notin> set (df_rows t))"
proof -
  have h1: "sort_values_contract (sort_values_desc mixed_pandas)"
    by (simp add: mixed_pandas_def sample_pandas_def reversing_sort_desc_contract)
  have h2: "read_csv mixed_pandas ''run.csv'' = Inr mixed_table"
    by (simp add: mixed_pandas_def)
  have h3: "column_index ''risk_score'' (df_columns mixed_table) = Some 1"
    by (simp add: mixed_table_def)
  have h4: "1 < length (df_rows mixed_table)"
    by (simp add: mixed_table_def)
  have h5: "get_cell 1 (df_rows mixed_table ! 1) = Text ''n/a''"
    by (simp add: mixed_table_def get_cell_def)
  have h6: "to_number mixed_pandas ''n/a'' = None"
    by (simp add: mixed_pandas_def sample_pandas_def float_literal_ok_def is_digit_def)
  have h7: "10 \<le> length (filter (\<lambda>row. coerce (to_number mixed_pandas) (get_cell 1 row) \<noteq> NaN)
                        (df_rows mixed_table))"
    by (simp add: mixed_table_def mixed_pandas_def sample_pandas_def get_cell_def coerce_def
        float_literal_ok_def is_digit_def)
  obtain df' t where r: "load_csv_data mixed_pandas ''run.csv'' = (Inr df', [])"
      "get_cell 1 (df_rows df' ! 1) = NaN" "top_10 mixed_pandas df' = Inr t"
      "length (df_rows t) = 10" "list_all (\<lambda>row. score 1 row \<noteq> None) (df_rows t)"
      "df_rows df' ! 1 \<notin> set (df_rows t)"
    using non_numeric_score_excluded[OF h1 h2 h3 h4 h5 h6 h7] by blast
  have "\<exists>df' t. load_csv_data mixed_pandas ''run.csv'' = (Inr df', [])
         \<and> get_cell 1 (df_rows df' ! 1) = NaN
         \<and> top_10 mixed_pandas df' = Inr t
         \<and> length (df_rows t) = 10
         \<and> list_all (\<lambda>row. score 1 row \<noteq> None) (df_rows t)
         \<and> df_rows df' ! 1 \<notin> set (df_rows t)"
    using r by (intro exI[of _ df'] exI[of _ t] conjI)
  then show ?thesis using h1 h2 h3 h4 h5 h6 h7 by (intro conjI)
qed


subsection \<open>The order of equal scores\<close>

lemma not_after_antisym: "not_after a b \<Longrightarrow> not_after b a \<Longrightarrow> a = b"
  by (cases a; cases b) auto

lemma not_after_refl: "not_after a a"
  by (cases a) auto

lemma sorted_not_after_unique:
  "sorted_wrt not_after xs \<Longrightarrow> sorted_wrt not_after ys \<Longrightarrow> mset xs = mset ys \<Longrightarrow> xs = ys"
proof (induction xs arbitrary: ys)
  case Nil
  then show ?case by simp
next
  case (Cons a xs)
  then obtain b ys' where ys: "ys = b # ys'" by (cases ys) auto
  have "b \<in> set (a # xs)" using Cons.prems(3) ys by (metis list.set_intros(1) mset_eq_setD)
  then have ab: "not_after a b" using Cons.prems(1) not_after_refl by auto
  have "a \<in> set (b # ys')" using Cons.prems(3) ys by (metis list.set_intros(1) mset_eq_setD)
  then have ba: "not_after b a" using Cons.prems(2) ys not_after_refl by auto
  have eq: "a = b" using ab ba by (rule not_after_antisym)
  then have "mset xs = mset ys'" using Cons.prems(3) ys by simp
  moreover have "sorted_wrt not_after xs" "sorted_wrt not_after ys'"
    using Cons.prems(1,2) ys by simp_all
  ultimately have "xs = ys'" using Cons.IH by blast
  then show ?case using eq ys by simp
qed

lemma eighteen_index: "column_index ''risk_score'' (df_columns eighteen_wallets) = Some 1"
  by (simp add: eighteen_wallets_def)

lemma eighteen_keys:
  "map (score 1) (df_rows eighteen_wallets)
   = [Some 99, Some 95, Some 95, Some 80, Some 18, Some 73, Some 9, Some 33, Some 16,
      Some 64, Some 58, Some 61, Some 49, Some 27, Some 13, Some 63, Some 4, Some 50]"
  by (simp add: eighteen_wallets_def score_def get_cell_def)

lemma eighteen_indexer:
  "nargsort_desc [Some 99, Some 95, Some 95, Some 80, Some 18, Some 73, Some 9, Some 33, Some 16,
      Some 64, Some 58, Some 61, Some 49, Some 27, Some 13, Some 63, Some 4, Some (50::real)]
   = Some [0, 2, 1, 3, 5, 9, 15, 11, 10, 17, 12, 7, 13, 4, 8, 14, 6, 16]"
  by code_simp

lemma fifteen_keys:
  "map (score 1) (df_rows fifteen_wallets)
   = [Some 99, Some 95, Some 95, Some 80, Some 78, Some 75, Some 70, Some 65, Some 60,
      Some 55, Some 50, Some 45, Some 40, Some 35, Some 30]"
  by (simp add: fifteen_wallets_def score_def get_cell_def)

lemma fifteen_indexer:
  "nargsort_desc [Some 99, Some 95, Some 95, Some 80, Some 78, Some 75, Some 70, Some 65, Some 60,
      Some 55, Some 50, Some 45, Some 40, Some 35, Some (30::real)]
   = Some [0, 1, 2, 3, 4, 5, 6, 7, 8, 9, 10, 11, 12, 13, 14]"
  by code_simp

lemma fifteen_numpy:
  "map_sum id wallets (top_10 (sample_pandas numpy_sort_values_desc) fifteen_wallets)
   = Inr [Text ''w01'', Text ''w02'', Text ''w03'', Text ''w04'', Text ''w05'',
          Text ''w06'', Text ''w07'', Text ''w08'', Text ''w09'', Text ''w10'']"
proof -
  have s: "sort_values_desc (sample_pandas numpy_sort_values_desc) = numpy_sort_values_desc"
    by (simp add: sample_pandas_def)
  have r: "numpy_sort_values_desc (score 1) (df_rows fifteen_wallets)
      = map (\<lambda>i. df_rows fifteen_wallets ! i) [0, 1, 2, 3, 4, 5, 6, 7, 8, 9, 10, 11, 12, 13, 14]"
    unfolding numpy_sort_values_desc_def fifteen_keys fifteen_indexer by simp
  show ?thesis
    unfolding top_10_rows[OF fifteen_index] s r
    by (simp add: fifteen_wallets_def wallets_def get_cell_def)
qed

text \<open>
  C3, counterexample.  In the table of eighteen wallets the second and third wallet,
  \<^verbatim>\<open>w02\<close> and \<^verbatim>\<open>w03\<close>, both score 95.  Sorted the way pandas sorts with the default
  kind, by numpy's quicksort, the top-10 table lists \<^verbatim>\<open>w03\<close> before \<^verbatim>\<open>w02\<close>: the
  partition step of the quicksort, taken for more than seventeen values, exchanges them.
\<close>

theorem top_10_tie_order_counterexample:
  "wallets eighteen_wallets ! 1 = Text ''w02'' \<and> score 1 (df_rows eighteen_wallets ! 1) = Some 95
   \<and> wallets eighteen_wallets ! 2 = Text ''w03'' \<and> score 1 (df_rows eighteen_wallets ! 2) = Some 95
   \<and> map_sum id wallets (top_10 (sample_pandas numpy_sort_values_desc) eighteen_wallets)
       = Inr [Text ''w01'', Text ''w03'', Text ''w02'', Text ''w04'', Text ''w06'',
              Text ''w10'', Text ''w16'', Text ''w12'', Text ''w11'', Text ''w18'']"
proof -
  have a: "wallets eighteen_wallets ! 1 = Text ''w02''" "score 1 (df_rows eighteen_wallets ! 1) = Some 95"
    "wallets eighteen_wallets ! 2 = Text ''w03''" "score 1 (df_rows eighteen_wallets ! 2) = Some 95"
    by (simp_all add: eighteen_wallets_def wallets_def score_def get_cell_def)
  have b: "map_sum id wallets (top_10 (sample_pandas numpy_sort_values_desc) eighteen_wallets)
       = Inr [Text ''w01'', Text ''w03'', Text ''w02'', Text ''w04'', Text ''w06'',
              Text ''w10'', Text ''w16'', Text ''w12'', Text ''w11'', Text ''w18'']"
  proof -
    have s: "sort_values_desc (sample_pandas numpy_sort_values_desc) = numpy_sort_values_desc"
      by (simp add: sample_pandas_def)
    have r: "numpy_sort_values_desc (score 1) (df_rows eighteen_wallets)
        = map (\<lambda>i. df_rows eighteen_wallets ! i)
            [0, 2, 1, 3, 5, 9, 15, 11, 10, 17, 12, 7, 13, 4, 8, 14, 6, 16]"
      unfolding numpy_sort_values_desc_def eighteen_keys eighteen_indexer by simp
    show ?thesis
      unfolding top_10_rows[OF eighteen_index] s r
      by (simp add: eighteen_wallets_def wallets_def get_cell_def)
  qed
  from a b show ?thesis by (intro conjI)
qed

text \<open>
  C3, as amended.  The top-10 selection is a function of the loaded table and the
  library's sort.  For every sorting function that meets the contract of \<^verbatim>\<open>sort_values\<close>
  the top-10 table has the columns of the loaded table and ten of its rows (all of them
  when there are fewer), in descending order of risk score with rows without a number
  last, and no row left out comes before a row kept; the sequence of risk scores in it is
  the same for any two such sorting functions, so it is fixed by the table alone.  On the
  fifteen wallets of the specification's example pandas' default sort returns the two
  wallets scored 95 in table order.
\<close>

theorem top_10_highest:
  assumes "sort_values_contract (sort_values_desc pd)"
    and "sort_values_contract (sort_values_desc pd')"
    and "column_index ''risk_score'' (df_columns df) = Some i"
  shows "(\<exists>t t'. top_10 pd df = Inr t \<and> top_10 pd' df = Inr t'
      \<and> df_columns t = df_columns df
      \<and> length (df_rows t) = min 10 (length (df_rows df))
      \<and> mset (df_rows t) \<subseteq># mset (df_rows df)
      \<and> sorted_wrt not_after (map (score i) (df_rows t))
      \<and> (\<forall>kept left. kept \<in> set (df_rows t) \<and> left \<in># mset (df_rows df) - mset (df_rows t)
            \<longrightarrow> not_after (score i kept) (score i left))
      \<and> map (score i) (df_rows t') = map (score i) (df_rows t))
    \<and> map_sum id wallets (top_10 (sample_pandas numpy_sort_values_desc) fifteen_wallets)
        = Inr [Text ''w01'', Text ''w02'', Text ''w03'', Text ''w04'', Text ''w05'',
               Text ''w06'', Text ''w07'', Text ''w08'', Text ''w09'', Text ''w10'']"
proof -
  let ?S = "sort_values_desc pd (score i) (df_rows df)"
  let ?S' = "sort_values_desc pd' (score i) (df_rows df)"
  let ?t = "df\<lparr>df_rows := take 10 ?S\<rparr>"
  let ?t' = "df\<lparr>df_rows := take 10 ?S'\<rparr>"
  obtain t where t: "top_10 pd df = Inr t" "df_columns t = df_columns df"
      "length (df_rows t) = min 10 (length (df_rows df))"
      "mset (df_rows t) \<subseteq># mset (df_rows df)"
      "sorted_wrt not_after (map (score i) (df_rows t))"
      "\<forall>kept left. kept \<in> set (df_rows t) \<and> left \<in># mset (df_rows df) - mset (df_rows t)
            \<longrightarrow> not_after (score i kept) (score i left)"
    using top_10_rows_highest[OF assms(1,3)] by blast
  have tt: "t = ?t" using t(1) top_10_rows[OF assms(3), of pd] by simp
  have t': "top_10 pd' df = Inr ?t'" by (rule top_10_rows[OF assms(3)])
  have m: "mset ?S = mset (df_rows df)" "sorted_wrt not_after (map (score i) ?S)"
    using assms(1) by (simp_all add: sort_values_contract_def)
  have m': "mset ?S' = mset (df_rows df)" "sorted_wrt not_after (map (score i) ?S')"
    using assms(2) by (simp_all add: sort_values_contract_def)
  have "mset (map (score i) ?S') = mset (map (score i) ?S)"
    unfolding mset_map m(1) m'(1) by (rule refl)
  with m'(2) m(2) have "map (score i) ?S' = map (score i) ?S"
    by (rule sorted_not_after_unique)
  then have "take 10 (map (score i) ?S') = take 10 (map (score i) ?S)" by (rule arg_cong)
  then have same: "map (score i) (df_rows ?t') = map (score i) (df_rows t)"
    unfolding tt by (simp add: take_map)
  have "\<exists>t t'. top_10 pd df = Inr t \<and> top_10 pd' df = Inr t'
      \<and> df_columns t = df_columns df
      \<and> length (df_rows t) = min 10 (length (df_rows df))
      \<and> mset (df_rows t) \<subseteq># mset (df_rows df)
      \<and> sorted_wrt not_after (map (score i) (df_rows t))
      \<and> (\<forall>kept left. kept \<in> set (df_rows t) \<and> left \<in># mset (df_rows df) - mset (df_rows t)
            \<longrightarrow> not_after (score i kept) (score i left))
      \<and> map (score i) (df_rows t') = map (score i) (df_rows t)"
    using t t' same by (intro exI[of _ t] exI[of _ ?t'] conjI)
  then show ?thesis using fifteen_numpy by (rule conjI)
qed

theorem top_10_highest_witness:
  "sort_values_contract (sort_values_desc (sample_pandas stable_sort_desc))
   \<and> sort_values_contract (sort_values_desc (sample_pandas reversing_sort_desc))
   \<and> column_index ''risk_score'' (df_columns eighteen_wallets) = Some 1
   \<and> (\<exists>t t'. top_10 (sample_pandas stable_sort_desc) eighteen_wallets = Inr t
        \<and> top_10 (sample_pandas reversing_sort_desc) eighteen_wallets = Inr t'
        \<and> df_columns t = [''wallet'', ''risk_score'']
        \<and> length (df_rows t) = 10
        \<and> mset (df_rows t) \<subseteq># mset (df_rows eighteen_wallets)
        \<and> sorted_wrt not_after (map (score 1) (df_rows t))
        \<and> map (score 1) (df_rows t') = map (score 1) (df_rows t))"
proof -
  have a: "sort_values_contract (sort_values_desc (sample_pandas stable_sort_desc))"
    by (simp add: sample_pandas_def stable_sort_desc_contract)
  have b: "sort_values_contract (sort_values_desc (sample_pandas reversing_sort_desc))"
    by (simp add: sample_pandas_def reversing_sort_desc_contract)
  obtain t t' where t: "top_10 (sample_pandas stable_sort_desc) eighteen_wallets = Inr t"
      "top_10 (sample_pandas reversing_sort_desc) eighteen_wallets = Inr t'"
      "df_columns t = df_columns eighteen_wallets"
      "length (df_rows t) = min 10 (length (df_rows eighteen_wallets))"
      "mset (df_rows t) \<subseteq># mset (df_rows eighteen_wallets)"
      "sorted_wrt not_after (map (score 1) (df_rows t))"
      "map (score 1) (df_rows t') = map (score 1) (df_rows t)"
    using top_10_highest[OF a b eighteen_index] by blast
  have c: "df_columns t = [''wallet'', ''risk_score'']" "length (df_rows t) = 10"
    using t(3,4) by (simp_all add: eighteen_wallets_def)
  have "\<exists>t t'. top_10 (sample_pandas stable_sort_desc) eighteen_wallets = Inr t
        \<and> top_10 (sample_pandas reversing_sort_desc) eighteen_wallets = Inr t'
        \<and> df_columns t = [''wallet'', ''risk_score'']
        \<and> length (df_rows t) = 10
        \<and> mset (df_rows t) \<subseteq># mset (df_rows eighteen_wallets)
        \<and> sorted_wrt not_after (map (score 1) (df_rows t))
        \<and> map (score 1) (df_rows t') = map (score 1) (df_rows t)"
    using t(1,2,5,6,7) c by (intro exI[of _ t] exI[of _ t'] conjI)
  then show ?thesis using a b eighteen_index by (intro conjI)
qed

section \<open>The pipeline loop\<close>

lemma emit_simps [simp]: "emit evs (r, tr, w) = (r, evs @ tr, w)"
  by (simp add: emit_def)

lemma fst_emit [simp]: "fst (emit evs out) = fst out"
  by (cases out) simp

lemma trace_emit [simp]: "fst (snd (emit evs out)) = evs @ fst (snd out)"
  by (cases out) simp









lemma and_next_Some [simp]: "and_next (Some e, tr, w) k = (Some e, tr, w)"
  by (simp add: and_next_def)

lemma and_next_None [simp]: "and_next (None, tr, w) k = emit tr (k w)"
  by (simp add: and_next_def)



lemma caught_append:
  assumes "caught_and_logged a" "caught_and_logged b"
  shows "caught_and_logged (a @ b)"
  unfolding caught_and_logged_def
proof (intro allI impI)
  fix s t e msg
  assume h: "Called s t (Some e) \<in> set (a @ b) \<and> failure_message s e = Some msg"
  then have "Called s t (Some e) \<in> set a \<or> Called s t (Some e) \<in> set b" by auto
  then show "\<exists>tr1 tr2. a @ b = tr1 @ Called s t (Some e) # Printed msg # tr2"
  proof
    assume "Called s t (Some e) \<in> set a"
    then obtain tr1 tr2 where "a = tr1 @ Called s t (Some e) # Printed msg # tr2"
      using assms(1) h unfolding caught_and_logged_def by blast
    then have "a @ b = tr1 @ Called s t (Some e) # Printed msg # (tr2 @ b)" by simp
    then show ?thesis by blast
  next
    assume "Called s t (Some e) \<in> set b"
    then obtain tr1 tr2 where "b = tr1 @ Called s t (Some e) # Printed msg # tr2"
      using assms(2) h unfolding caught_and_logged_def by blast
    then have "a @ b = (a @ tr1) @ Called s t (Some e) # Printed msg # tr2" by simp
    then show ?thesis by blast
  qed
qed

lemma caught_plain:
  "\<forall>ev\<in>set evs. \<forall>s t e. ev = Called s t (Some e) \<longrightarrow> failure_message s e = None
   \<Longrightarrow> caught_and_logged evs"
  unfolding caught_and_logged_def by fastforce


lemma caught_Cons_plain:
  assumes "\<forall>s t e. ev = Called s t (Some e) \<longrightarrow> failure_message s e = None" "caught_and_logged tr"
  shows "caught_and_logged (ev # tr)"
proof -
  have "caught_and_logged [ev]" using assms(1) by (intro caught_plain) simp
  from caught_append[OF this assms(2)] show ?thesis by simp
qed

lemma caught_emit:
  "caught_and_logged evs \<Longrightarrow> caught_and_logged (fst (snd out))
   \<Longrightarrow> caught_and_logged (fst (snd (emit evs out)))"
  by (simp add: caught_append)





















end
